theory Spec2Isabelle
  imports Main
begin

section \<open>Python primitives used by the scripts\<close>

text \<open>
  The scripts \<^verbatim>\<open>R4/fetchdat.py\<close> and \<^verbatim>\<open>osdf_demo.py\<close> build paths with
  \<^verbatim>\<open>str.replace\<close>, f-strings and \<^verbatim>\<open>os.path.join\<close>, create directories with
  \<^verbatim>\<open>os.makedirs(..., exist_ok=True)\<close> and write files. Strings are modelled as
  \<open>string\<close>; the only characters the scripts inspect are ASCII (\<open>:\<close>, \<open>_\<close>, \<open>/\<close>).
\<close>

subsection \<open>\<^verbatim>\<open>str(int)\<close>, as used by f-strings on \<^verbatim>\<open>int\<close> values\<close>

definition digit_char :: "nat \<Rightarrow> char" where
  "digit_char d = ''0123456789'' ! (d mod 10)"

function digits_nat :: "nat \<Rightarrow> string" where
  "digits_nat n =
     (if n < 10 then [digit_char n]
      else digits_nat (n div 10) @ [digit_char (n mod 10)])"
  by pat_completeness auto
termination
  by (relation "measure id") auto

declare digits_nat.simps [simp del]

definition str_int :: "int \<Rightarrow> string" where
  "str_int i = (if i < 0 then CHR ''-'' # digits_nat (nat (- i)) else digits_nat (nat i))"

subsection \<open>\<^verbatim>\<open>str.replace(old, new)\<close>\<close>

text \<open>
  Left-to-right, non-overlapping replacement of every occurrence of \<open>old\<close>. With an
  empty \<open>old\<close> Python inserts \<open>new\<close> before every character and at the end.
\<close>

function replace_from :: "string \<Rightarrow> string \<Rightarrow> string \<Rightarrow> string" where
  "replace_from old new s =
     (if s = [] \<or> old = [] then s
      else if take (length old) s = old
        then new @ replace_from old new (drop (length old) s)
        else hd s # replace_from old new (tl s))"
  by pat_completeness auto
termination
proof (relation "measure (\<lambda>(old, new, s). length s)")
  show "wf (measure (\<lambda>(old, new, s). length s))" by simp
next
  fix old new s :: string
  assume "\<not> (s = [] \<or> old = [])"
  then show "((old, new, drop (length old) s), old, new, s)
      \<in> measure (\<lambda>(old, new, s). length s)"
    by simp
next
  fix old new s :: string
  assume "\<not> (s = [] \<or> old = [])"
  then show "((old, new, tl s), old, new, s) \<in> measure (\<lambda>(old, new, s). length s)"
    by simp
qed

declare replace_from.simps [simp del]

definition replace :: "string \<Rightarrow> string \<Rightarrow> string \<Rightarrow> string" where
  "replace s old new =
     (if old = [] then new @ concat (map (\<lambda>c. c # new) s)
      else replace_from old new s)"

subsection \<open>\<^verbatim>\<open>posixpath\<close>: join, split, dirname, normpath, abspath\<close>

definition sep :: char where
  "sep = CHR ''/''"

definition startswith_sep :: "string \<Rightarrow> bool" where
  "startswith_sep p = (case p of [] \<Rightarrow> False | c # _ \<Rightarrow> c = sep)"

definition endswith_sep :: "string \<Rightarrow> bool" where
  "endswith_sep p = (case rev p of [] \<Rightarrow> False | c # _ \<Rightarrow> c = sep)"

text \<open>\<^verbatim>\<open>os.path.join(a, b)\<close>: an absolute \<open>b\<close> discards \<open>a\<close>; otherwise exactly one
  separator is put between them unless \<open>a\<close> is empty or already ends with one.\<close>

definition path_join :: "string \<Rightarrow> string \<Rightarrow> string" where
  "path_join a b =
     (if startswith_sep b then b
      else if a = [] \<or> endswith_sep a then a @ b
      else a @ [sep] @ b)"

text \<open>\<^verbatim>\<open>p.split('/')\<close>.\<close>

fun split_sep :: "string \<Rightarrow> string list" where
  "split_sep [] = [[]]"
| "split_sep (c # cs) =
     (if c = sep then [] # split_sep cs
      else (case split_sep cs of
              [] \<Rightarrow> [[c]]
            | w # ws \<Rightarrow> (c # w) # ws))"

text \<open>\<^verbatim>\<open>'/'.join(comps)\<close>.\<close>

fun join_sep :: "string list \<Rightarrow> string" where
  "join_sep [] = []"
| "join_sep [c] = c"
| "join_sep (c # d # cs) = c @ [sep] @ join_sep (d # cs)"

text \<open>The loop of \<^verbatim>\<open>posixpath.normpath\<close> over the components; \<open>new_comps\<close> is the
  list built so far and \<open>initial_slashes\<close> the number of leading slashes kept (0, 1 or 2).\<close>

fun norm_comps :: "nat \<Rightarrow> string list \<Rightarrow> string list \<Rightarrow> string list" where
  "norm_comps initial_slashes new_comps [] = new_comps"
| "norm_comps initial_slashes new_comps (part # parts) =
     (if part = [] \<or> part = ''.'' then norm_comps initial_slashes new_comps parts
      else if part \<noteq> ''..'' \<or> (initial_slashes = 0 \<and> new_comps = [])
               \<or> (new_comps \<noteq> [] \<and> last new_comps = ''..'')
        then norm_comps initial_slashes (new_comps @ [part]) parts
      else if new_comps \<noteq> [] then norm_comps initial_slashes (butlast new_comps) parts
      else norm_comps initial_slashes new_comps parts)"

definition initial_slashes_of :: "string \<Rightarrow> nat" where
  "initial_slashes_of p =
     (if \<not> startswith_sep p then 0
      else if take 2 p = [sep, sep] \<and> take 3 p \<noteq> [sep, sep, sep] then 2
      else 1)"

definition normpath :: "string \<Rightarrow> string" where
  "normpath p =
     (if p = [] then ''.''
      else
        let initial_slashes = initial_slashes_of p;
            comps = norm_comps initial_slashes [] (split_sep p);
            path = replicate initial_slashes sep @ join_sep comps
        in if path = [] then ''.'' else path)"

text \<open>\<^verbatim>\<open>os.path.abspath(p)\<close>, with the process's working directory \<open>cwd\<close> made explicit.\<close>

definition abspath :: "string \<Rightarrow> string \<Rightarrow> string" where
  "abspath cwd p = normpath (if startswith_sep p then p else path_join cwd p)"

definition rstrip_sep :: "string \<Rightarrow> string" where
  "rstrip_sep p = rev (dropWhile (\<lambda>c. c = sep) (rev p))"

text \<open>\<^verbatim>\<open>os.path.dirname(p)\<close>: everything up to the last separator, without trailing
  separators unless it consists of separators only.\<close>

definition dirname :: "string \<Rightarrow> string" where
  "dirname p =
     (let head = rev (dropWhile (\<lambda>c. c \<noteq> sep) (rev p))
      in if head \<noteq> [] \<and> head \<noteq> replicate (length head) sep then rstrip_sep head else head)"

definition basename :: "string \<Rightarrow> string" where
  "basename p = rev (takeWhile (\<lambda>c. c \<noteq> sep) (rev p))"

section \<open>Errors, the file system and the observable world\<close>

datatype error =
    FileNotFoundError string
  | FileExistsError string
  | NotADirectoryError string
  | IsADirectoryError string
  | OtherException string

definition quote :: char where
  "quote = CHR 0x27"

definition newline :: char where
  "newline = CHR 0x0A"

text \<open>\<^verbatim>\<open>str(e)\<close>, as an f-string renders a caught exception. For the operating-system
  errors it is the errno text followed by the file name in quotes; any other exception
  carries its own text.\<close>

fun str_error :: "error \<Rightarrow> string" where
  "str_error (FileNotFoundError p) =
     ''[Errno 2] No such file or directory: '' @ [quote] @ p @ [quote]"
| "str_error (FileExistsError p) = ''[Errno 17] File exists: '' @ [quote] @ p @ [quote]"
| "str_error (NotADirectoryError p) =
     ''[Errno 20] Not a directory: '' @ [quote] @ p @ [quote]"
| "str_error (IsADirectoryError p) =
     ''[Errno 21] Is a directory: '' @ [quote] @ p @ [quote]"
| "str_error (OtherException m) = m"

datatype outcome = Completed | Raised error

text \<open>
  The file system maps a normalised absolute path (\<open>abspath cwd p\<close>) to what is
  there. Symbolic links are not modelled, and \<open>..\<close> is resolved lexically, as
  \<^verbatim>\<open>os.path.normpath\<close> does. A root (\<open>/\<close> or \<open>//\<close>) is always a directory.
\<close>

datatype node = Dir | File string

type_synonym filesystem = "string \<rightharpoonup> node"

definition is_root :: "string \<Rightarrow> bool" where
  "is_root k = (k \<noteq> [] \<and> k = replicate (length k) sep)"

definition node_at :: "filesystem \<Rightarrow> string \<Rightarrow> node option" where
  "node_at d k = (if is_root k then Some Dir else d k)"

text \<open>\<^verbatim>\<open>os.mkdir(name)\<close> inside \<^verbatim>\<open>os.makedirs(..., exist_ok=True)\<close>: the
  \<^verbatim>\<open>FileExistsError\<close> of an existing directory is swallowed, every other
  \<^verbatim>\<open>OSError\<close> is raised.\<close>

definition mkdir_exist_ok :: "string \<Rightarrow> filesystem \<Rightarrow> error + filesystem" where
  "mkdir_exist_ok name d =
     (case node_at d name of
        Some Dir \<Rightarrow> Inr d
      | Some (File _) \<Rightarrow> Inl (FileExistsError name)
      | None \<Rightarrow>
          (case node_at d (dirname name) of
             Some Dir \<Rightarrow> Inr (d(name \<mapsto> Dir))
           | Some (File _) \<Rightarrow> Inl (NotADirectoryError name)
           | None \<Rightarrow> Inl (FileNotFoundError name)))"

lemma length_dirname_le: "length (dirname p) \<le> length p"
proof -
  have a: "length (rev (dropWhile (\<lambda>c. c \<noteq> sep) (rev p))) \<le> length p"
    using length_dropWhile_le [of "\<lambda>c. c \<noteq> sep" "rev p"] by simp
  have b: "length (rstrip_sep q) \<le> length q" for q
    using length_dropWhile_le [of "\<lambda>c. c = sep" "rev q"] by (simp add: rstrip_sep_def)
  show ?thesis
    using a b [of "rev (dropWhile (\<lambda>c. c \<noteq> sep) (rev p))"]
    by (simp add: dirname_def Let_def)
qed

lemma length_dirname_less:
  assumes "basename p \<noteq> []"
  shows "length (dirname p) < length p"
proof -
  let ?tw = "takeWhile (\<lambda>c. c \<noteq> sep) (rev p)"
  let ?dw = "dropWhile (\<lambda>c. c \<noteq> sep) (rev p)"
  have e: "length ?tw + length ?dw = length p"
    by (metis length_append length_rev takeWhile_dropWhile_id)
  have "?tw \<noteq> []"
    using assms by (simp add: basename_def)
  then obtain x xs where "?tw = x # xs"
    by (cases ?tw) auto
  then have "length ?tw = Suc (length xs)"
    by simp
  with e have a: "length (rev ?dw) < length p"
    by simp
  have b: "length (rstrip_sep (rev ?dw)) \<le> length (rev ?dw)"
    using length_dropWhile_le [of "\<lambda>c. c = sep" "rev (rev ?dw)"]
    by (simp add: rstrip_sep_def)
  show ?thesis
    using a b by (simp add: dirname_def Let_def)
qed

text \<open>\<^verbatim>\<open>os.makedirs(name, exist_ok=True)\<close> on a normalised path: a missing parent is
  created first (recursively), then the directory itself.\<close>

function makedirs_key :: "string \<Rightarrow> filesystem \<Rightarrow> error + filesystem" where
  "makedirs_key name d =
     (let head = dirname name; tail = basename name
      in if head \<noteq> [] \<and> tail \<noteq> [] \<and> node_at d head = None
         then (case makedirs_key head d of
                 Inl e \<Rightarrow> Inl e
               | Inr d1 \<Rightarrow> mkdir_exist_ok name d1)
         else mkdir_exist_ok name d)"
  by pat_completeness auto
termination
proof (relation "measure (\<lambda>(name, d). length name)")
  show "wf (measure (\<lambda>(name, d). length name))" by simp
next
  fix name :: string and d :: filesystem and x xa
  assume "x = dirname name" "xa = basename name" "x \<noteq> [] \<and> xa \<noteq> [] \<and> node_at d x = None"
  then show "((x, d), name, d) \<in> measure (\<lambda>(name, d). length name)"
    using length_dirname_less [of name] by simp
qed

declare makedirs_key.simps [simp del]

definition makedirs :: "string \<Rightarrow> string \<Rightarrow> filesystem \<Rightarrow> error + filesystem" where
  "makedirs cwd name d =
     (if name = [] then Inl (FileNotFoundError name) else makedirs_key (abspath cwd name) d)"

text \<open>Opening \<open>path\<close> for writing (truncating) and writing \<open>content\<close> to it.\<close>

definition write_file :: "string \<Rightarrow> string \<Rightarrow> string \<Rightarrow> filesystem \<Rightarrow> error + filesystem" where
  "write_file cwd path content d =
     (if path = [] then Inl (FileNotFoundError path)
      else
        let k = abspath cwd path
        in case node_at d k of
             Some Dir \<Rightarrow> Inl (IsADirectoryError path)
           | Some (File _) \<Rightarrow> Inr (d(k \<mapsto> File content))
           | None \<Rightarrow>
               (case node_at d (dirname k) of
                  Some Dir \<Rightarrow> Inr (d(k \<mapsto> File content))
                | Some (File _) \<Rightarrow> Inl (NotADirectoryError path)
                | None \<Rightarrow> Inl (FileNotFoundError path)))"

text \<open>
  What a run does is recorded as a list of events, oldest first, next to the state of the
  disk and the text still buffered in the open manifest file object.
\<close>

datatype event =
    Printed string
  | Makedirs string
  | Fetch string int int string
  | WriteFile string
  | FinWrite string
  | FindUrls string string int int string string
  | Get string
  | Sleep nat

record world =
  disk :: filesystem
  fin_pending :: string
  events :: "event list"

definition record_event :: "event \<Rightarrow> world \<Rightarrow> world" where
  "record_event e w = w\<lparr>events := events w @ [e]\<rparr>"

section \<open>The cross-product driver \<^verbatim>\<open>R4/fetchdat.py\<close>\<close>

text \<open>
  The two tables are taken as already loaded: a row of \<^verbatim>\<open>channels.csv\<close> is a channel
  name with its sampling rate, a row of \<^verbatim>\<open>time.csv\<close> a start and an end, and the
  \<^verbatim>\<open>int(...)\<close> conversions of the script are taken to succeed.
\<close>

record channel_row =
  channel :: string
  sampling_rate :: int

record time_row =
  row_start :: int
  row_end :: int

text \<open>
  A value interpolated into an f-string is rendered by its own \<^verbatim>\<open>__format__\<close>: an
  \<^verbatim>\<open>int\<close> in decimal, any other object (a float, a quantity with a unit) by the text
  it returns, which the object carries here.
\<close>

datatype pyvalue = PyInt int | PyObject string

fun py_format :: "pyvalue \<Rightarrow> string" where
  "py_format (PyInt i) = str_int i"
| "py_format (PyObject s) = s"

text \<open>What \<^verbatim>\<open>TimeSeries.fetch\<close> returns: the data (opaque; \<open>payload\<close> is what
  \<^verbatim>\<open>data.write\<close> stores) and the attributes \<^verbatim>\<open>t0\<close> and \<^verbatim>\<open>dt\<close>.\<close>

record series =
  payload :: string
  t0 :: pyvalue
  dt :: pyvalue

text \<open>The remote service: the answer to \<^verbatim>\<open>TimeSeries.fetch(channel, start, end, host)\<close>,
  a series or the exception raised.\<close>

type_synonym fetcher = "string \<Rightarrow> int \<Rightarrow> int \<Rightarrow> string \<Rightarrow> error + series"

definition fin_file :: string where
  "fin_file = ''fin.txt''"

definition nds_host :: string where
  "nds_host = ''nds.gwosc.org''"

text \<open>
  \<^verbatim>\<open>open(fin_file, 'a')\<close> gives a buffered text file: \<^verbatim>\<open>fin.write\<close> appends to the
  buffer held by the file object, and the buffer is handed to the operating system when it
  has grown to the buffer size (\<^verbatim>\<open>io.DEFAULT_BUFFER_SIZE\<close>) or when the file is closed.
  The script never calls \<^verbatim>\<open>fin.flush()\<close>.
\<close>

definition buffer_size :: nat where
  "buffer_size = 8192"

definition file_text :: "filesystem \<Rightarrow> string \<Rightarrow> string" where
  "file_text d k = (case d k of Some (File c) \<Rightarrow> c | _ \<Rightarrow> [])"

definition open_append :: "string \<Rightarrow> string \<Rightarrow> world \<Rightarrow> error + world" where
  "open_append cwd path w =
     (let k = abspath cwd path
      in case node_at (disk w) k of
           Some Dir \<Rightarrow> Inl (IsADirectoryError path)
         | Some (File _) \<Rightarrow> Inr (w\<lparr>fin_pending := []\<rparr>)
         | None \<Rightarrow>
             (case node_at (disk w) (dirname k) of
                Some Dir \<Rightarrow> Inr (w\<lparr>disk := (disk w)(k \<mapsto> File []), fin_pending := []\<rparr>)
              | Some (File _) \<Rightarrow> Inl (NotADirectoryError path)
              | None \<Rightarrow> Inl (FileNotFoundError path)))"

definition fin_flush :: "string \<Rightarrow> world \<Rightarrow> world" where
  "fin_flush cwd w =
     (let k = abspath cwd fin_file
      in w\<lparr>disk := (disk w)(k \<mapsto> File (file_text (disk w) k @ fin_pending w)),
           fin_pending := []\<rparr>)"

definition fin_write :: "string \<Rightarrow> string \<Rightarrow> world \<Rightarrow> world" where
  "fin_write cwd text w =
     (let w1 = (record_event (FinWrite text) w)\<lparr>fin_pending := fin_pending w @ text\<rparr>
      in if buffer_size \<le> length (fin_pending w1) then fin_flush cwd w1 else w1)"

definition fin_close :: "string \<Rightarrow> world \<Rightarrow> world" where
  "fin_close cwd w = fin_flush cwd w"

definition sanitize :: "string \<Rightarrow> string" where
  "sanitize channel_name = replace channel_name '':'' ''_''"

definition time_dir_path_of :: "string \<Rightarrow> int \<Rightarrow> int \<Rightarrow> string" where
  "time_dir_path_of channel_dir start_time end_time =
     path_join channel_dir (str_int start_time @ ''_'' @ str_int end_time)"

definition output_file_of :: "string \<Rightarrow> string \<Rightarrow> int \<Rightarrow> int \<Rightarrow> string" where
  "output_file_of channel_name time_dir_path start_time end_time =
     path_join time_dir_path
       (replace channel_name '':'' ''_'' @ ''_'' @ str_int start_time @ ''_''
          @ str_int end_time @ ''.gwf'')"

definition manifest_line :: "string \<Rightarrow> string \<Rightarrow> series \<Rightarrow> string" where
  "manifest_line cwd output_file data =
     abspath cwd output_file @ '' '' @ py_format (t0 data) @ '' '' @ py_format (dt data)
       @ '' 0 0'' @ [newline]"

text \<open>Lines 41 to 60: what is done with a fetched series.\<close>

definition save_series ::
  "string \<Rightarrow> string \<Rightarrow> string \<Rightarrow> int \<Rightarrow> int \<Rightarrow> series \<Rightarrow> world \<Rightarrow> outcome \<times> world" where
  "save_series cwd channel_name channel_dir start_time end_time data w =
     (let time_dir_path = time_dir_path_of channel_dir start_time end_time;
          w1 = record_event (Makedirs time_dir_path) w
      in case makedirs cwd time_dir_path (disk w1) of
           Inl e \<Rightarrow> (Raised e, w1)
         | Inr d1 \<Rightarrow>
             (let output_file = output_file_of channel_name time_dir_path start_time end_time;
                  w2 = record_event (WriteFile output_file) (w1\<lparr>disk := d1\<rparr>)
              in case write_file cwd output_file (payload data) (disk w2) of
                   Inl e \<Rightarrow> (Raised e, w2)
                 | Inr d2 \<Rightarrow>
                     (let w3 = record_event
                            (Printed (''Aux data for channel '' @ [quote] @ channel_name
                               @ [quote] @ '' from '' @ str_int start_time @ '' to ''
                               @ str_int end_time @ '' saved to '' @ output_file))
                            (w2\<lparr>disk := d2\<rparr>);
                          w4 = fin_write cwd (manifest_line cwd output_file data) w3;
                          w5 = record_event
                            (Printed (''Added to fin.txt: '' @ abspath cwd output_file @ '' ''
                               @ py_format (t0 data) @ '' '' @ py_format (dt data) @ '' 0 0''))
                            w4
                      in (Completed, w5))))"

text \<open>Lines 35 to 39, then the rest of the body: one (channel, time range) pair.\<close>

definition process_time_row ::
  "fetcher \<Rightarrow> string \<Rightarrow> string \<Rightarrow> string \<Rightarrow> time_row \<Rightarrow> world \<Rightarrow> outcome \<times> world" where
  "process_time_row fetch cwd channel_name channel_dir time_row w =
     (let start_time = row_start time_row;
          end_time = row_end time_row;
          w1 = record_event (Fetch channel_name start_time end_time nds_host) w
      in case fetch channel_name start_time end_time nds_host of
           Inl e \<Rightarrow> (Raised e, w1)
         | Inr data \<Rightarrow> save_series cwd channel_name channel_dir start_time end_time data w1)"

text \<open>The inner loop over \<^verbatim>\<open>time_ranges.iterrows()\<close>: an exception ends it.\<close>

fun time_loop ::
  "fetcher \<Rightarrow> string \<Rightarrow> string \<Rightarrow> string \<Rightarrow> time_row list \<Rightarrow> world \<Rightarrow> outcome \<times> world" where
  "time_loop fetch cwd channel_name channel_dir [] w = (Completed, w)"
| "time_loop fetch cwd channel_name channel_dir (time_row # rest) w =
     (case process_time_row fetch cwd channel_name channel_dir time_row w of
        (Raised e, w1) \<Rightarrow> (Raised e, w1)
      | (Completed, w1) \<Rightarrow> time_loop fetch cwd channel_name channel_dir rest w1)"

text \<open>Lines 27 to 34: one row of \<^verbatim>\<open>channels.iterrows()\<close>. The sampling rate is
  read and not used.\<close>

definition process_channel_row ::
  "fetcher \<Rightarrow> string \<Rightarrow> time_row list \<Rightarrow> channel_row \<Rightarrow> world \<Rightarrow> outcome \<times> world" where
  "process_channel_row fetch cwd time_ranges channel_row w =
     (let channel_name = channel channel_row;
          channel_dir = replace channel_name '':'' ''_'';
          w1 = record_event (Makedirs channel_dir) w
      in case makedirs cwd channel_dir (disk w1) of
           Inl e \<Rightarrow> (Raised e, w1)
         | Inr d1 \<Rightarrow>
             time_loop fetch cwd channel_name channel_dir time_ranges (w1\<lparr>disk := d1\<rparr>))"

text \<open>The outer loop over \<^verbatim>\<open>channels.iterrows()\<close> (line 26).\<close>

fun channel_loop ::
  "fetcher \<Rightarrow> string \<Rightarrow> time_row list \<Rightarrow> channel_row list \<Rightarrow> world \<Rightarrow> outcome \<times> world" where
  "channel_loop fetch cwd time_ranges [] w = (Completed, w)"
| "channel_loop fetch cwd time_ranges (channel_row # rest) w =
     (case process_channel_row fetch cwd time_ranges channel_row w of
        (Raised e, w1) \<Rightarrow> (Raised e, w1)
      | (Completed, w1) \<Rightarrow> channel_loop fetch cwd time_ranges rest w1)"

text \<open>The \<^verbatim>\<open>with open(fin_file, 'a') as fin:\<close> block (line 23): the file is closed, and
  its buffer written out, however the body ends.\<close>

definition fetchdat ::
  "fetcher \<Rightarrow> string \<Rightarrow> channel_row list \<Rightarrow> time_row list \<Rightarrow> world \<Rightarrow> outcome \<times> world" where
  "fetchdat fetch cwd channels time_ranges w =
     (case open_append cwd fin_file w of
        Inl e \<Rightarrow> (Raised e, w)
      | Inr w1 \<Rightarrow>
          (case channel_loop fetch cwd time_ranges channels w1 of
             (r, w2) \<Rightarrow> (r, fin_close cwd w2)))"

section \<open>The discovery-based variant \<^verbatim>\<open>osdf_demo.py\<close>\<close>

definition ifo :: string where
  "ifo = ''H''"

definition osdf_channel_name :: string where
  "osdf_channel_name = ''H1_GWOSC_O3a_4KHZ_R1''"

definition osdf_host :: string where
  "osdf_host = ''https://datafind.gw-openscience.org''"

definition timeout_duration :: nat where
  "timeout_duration = 2"

text \<open>The two remote collaborators: \<^verbatim>\<open>find_urls(ifo, channel, start, end, urltype, host)\<close>
  and \<^verbatim>\<open>rp.get(url).content\<close>, each answering with a value or the exception raised.\<close>

type_synonym url_finder =
  "string \<Rightarrow> string \<Rightarrow> int \<Rightarrow> int \<Rightarrow> string \<Rightarrow> string \<Rightarrow> error + string list"

type_synonym getter = "string \<Rightarrow> error + string"

definition base_dir_of :: "int \<Rightarrow> int \<Rightarrow> string" where
  "base_dir_of start end_time = osdf_channel_name @ ''/'' @ str_int start @ ''_'' @ str_int end_time"

definition filename_of :: "int \<Rightarrow> int \<Rightarrow> string" where
  "filename_of start end_time =
     osdf_channel_name @ ''_'' @ str_int start @ ''_'' @ str_int end_time @ ''.gwf''"

definition filepath_of :: "int \<Rightarrow> int \<Rightarrow> string" where
  "filepath_of start end_time = path_join (base_dir_of start end_time) (filename_of start end_time)"

text \<open>The body of the \<^verbatim>\<open>try\<close> (lines 35 to 50).\<close>

definition download_one :: "getter \<Rightarrow> string \<Rightarrow> int \<Rightarrow> int \<Rightarrow> string \<Rightarrow> world \<Rightarrow> outcome \<times> world" where
  "download_one rp_get cwd start end_time url w =
     (let w1 = record_event (Get url) w
      in case rp_get url of
           Inl e \<Rightarrow> (Raised e, w1)
         | Inr content \<Rightarrow>
             (let filepath = filepath_of start end_time;
                  w2 = record_event (WriteFile filepath) w1
              in case write_file cwd filepath content (disk w2) of
                   Inl e \<Rightarrow> (Raised e, w2)
                 | Inr d \<Rightarrow>
                     (let w3 = record_event (Printed (''Saved: '' @ filepath)) (w2\<lparr>disk := d\<rparr>);
                          w4 = record_event
                            (Printed (''Waiting for '' @ str_int (int timeout_duration)
                               @ '' seconds before the next download...'')) w3;
                          w5 = record_event (Sleep timeout_duration) w4
                      in (Completed, w5))))"

text \<open>One turn of \<^verbatim>\<open>for url in urls\<close>: the \<^verbatim>\<open>except Exception as e\<close> clause prints
  and lets the loop go on.\<close>

definition process_url :: "getter \<Rightarrow> string \<Rightarrow> int \<Rightarrow> int \<Rightarrow> string \<Rightarrow> world \<Rightarrow> world" where
  "process_url rp_get cwd start end_time url w =
     (let w1 = record_event (Printed (''Downloading: '' @ url)) w
      in case download_one rp_get cwd start end_time url w1 of
           (Raised e, w2) \<Rightarrow>
             record_event (Printed (''Failed to download '' @ url @ '': '' @ str_error e)) w2
         | (Completed, w2) \<Rightarrow> w2)"

fun url_loop :: "getter \<Rightarrow> string \<Rightarrow> int \<Rightarrow> int \<Rightarrow> string list \<Rightarrow> world \<Rightarrow> world" where
  "url_loop rp_get cwd start end_time [] w = w"
| "url_loop rp_get cwd start end_time (url # urls) w =
     url_loop rp_get cwd start end_time urls (process_url rp_get cwd start end_time url w)"

text \<open>One turn of \<^verbatim>\<open>for row in reader\<close> (lines 18 to 53).\<close>

definition process_row ::
  "url_finder \<Rightarrow> getter \<Rightarrow> string \<Rightarrow> time_row \<Rightarrow> world \<Rightarrow> outcome \<times> world" where
  "process_row find_urls rp_get cwd row w =
     (let start = row_start row;
          end_time = row_end row;
          w1 = record_event (FindUrls ifo osdf_channel_name start end_time ''osdf'' osdf_host) w
      in case find_urls ifo osdf_channel_name start end_time ''osdf'' osdf_host of
           Inl e \<Rightarrow> (Raised e, w1)
         | Inr urls \<Rightarrow>
             if urls = []
             then (Completed,
                   record_event
                     (Printed (''No files found for '' @ str_int start @ '' to '' @ str_int end_time))
                     w1)
             else
               (let base_dir = base_dir_of start end_time;
                    w2 = record_event (Makedirs base_dir) w1
                in case makedirs cwd base_dir (disk w2) of
                     Inl e \<Rightarrow> (Raised e, w2)
                   | Inr d \<Rightarrow>
                       (Completed, url_loop rp_get cwd start end_time urls (w2\<lparr>disk := d\<rparr>))))"

fun row_loop ::
  "url_finder \<Rightarrow> getter \<Rightarrow> string \<Rightarrow> time_row list \<Rightarrow> world \<Rightarrow> outcome \<times> world" where
  "row_loop find_urls rp_get cwd [] w = (Completed, w)"
| "row_loop find_urls rp_get cwd (row # rows) w =
     (case process_row find_urls rp_get cwd row w of
        (Raised e, w1) \<Rightarrow> (Raised e, w1)
      | (Completed, w1) \<Rightarrow> row_loop find_urls rp_get cwd rows w1)"

definition osdf_demo ::
  "url_finder \<Rightarrow> getter \<Rightarrow> string \<Rightarrow> time_row list \<Rightarrow> world \<Rightarrow> outcome \<times> world" where
  "osdf_demo find_urls rp_get cwd rows w = row_loop find_urls rp_get cwd rows w"

section \<open>Reading a run: pairs, calls and writes\<close>

text \<open>The cross product of the two tables in the order of the nested loops: channel outer,
  time range inner.\<close>

type_synonym pair = "string \<times> int \<times> int"

definition pairs_of_channel :: "time_row list \<Rightarrow> channel_row \<Rightarrow> pair list" where
  "pairs_of_channel time_ranges c = map (\<lambda>t. (channel c, row_start t, row_end t)) time_ranges"

definition pairs :: "channel_row list \<Rightarrow> time_row list \<Rightarrow> pair list" where
  "pairs channels time_ranges = concat (map (pairs_of_channel time_ranges) channels)"

fun pair_dir :: "pair \<Rightarrow> string" where
  "pair_dir (c, s, e) = time_dir_path_of (sanitize c) s e"

fun pair_file :: "pair \<Rightarrow> string" where
  "pair_file (c, s, e) = output_file_of c (time_dir_path_of (sanitize c) s e) s e"

fun pair_line :: "fetcher \<Rightarrow> string \<Rightarrow> pair \<Rightarrow> string" where
  "pair_line fetch cwd (c, s, e) =
     (case fetch c s e nds_host of
        Inl _ \<Rightarrow> []
      | Inr data \<Rightarrow> manifest_line cwd (pair_file (c, s, e)) data)"

text \<open>What a list of events says was called, in order.\<close>

definition fetch_calls :: "event list \<Rightarrow> pair list" where
  "fetch_calls es = concat (map (\<lambda>ev. case ev of Fetch c s e h \<Rightarrow> [(c, s, e)] | _ \<Rightarrow> []) es)"

definition written_paths :: "event list \<Rightarrow> string list" where
  "written_paths es = concat (map (\<lambda>ev. case ev of WriteFile p \<Rightarrow> [p] | _ \<Rightarrow> []) es)"

definition made_dirs :: "event list \<Rightarrow> string list" where
  "made_dirs es = concat (map (\<lambda>ev. case ev of Makedirs p \<Rightarrow> [p] | _ \<Rightarrow> []) es)"

definition fin_writes :: "event list \<Rightarrow> string list" where
  "fin_writes es = concat (map (\<lambda>ev. case ev of FinWrite t \<Rightarrow> [t] | _ \<Rightarrow> []) es)"

text \<open>The events a run added to those of the world it started from.\<close>

definition new_events :: "world \<Rightarrow> world \<Rightarrow> event list" where
  "new_events w w' = drop (length (events w)) (events w')"

text \<open>The text of the manifest as the program sees it: what is in the file followed by
  what the file object still holds.\<close>

definition manifest_text :: "string \<Rightarrow> world \<Rightarrow> string" where
  "manifest_text cwd w = file_text (disk w) (abspath cwd fin_file) @ fin_pending w"

section \<open>Facts about the string and path primitives\<close>

lemma digits_nat_numeral:
  "digits_nat (numeral k) =
     (if (numeral k :: nat) < 10 then [digit_char (numeral k)]
      else digits_nat (numeral k div 10) @ [digit_char (numeral k mod 10)])"
  by (rule digits_nat.simps)

lemma digits_nat_0: "digits_nat 0 = ''0''"
  by (subst digits_nat.simps) (simp add: digit_char_def)

lemma digits_nat_1: "digits_nat (Suc 0) = ''1''"
  by (subst digits_nat.simps) (simp add: digit_char_def)

lemmas str_int_eval = str_int_def digits_nat_numeral digits_nat_0 digits_nat_1 digit_char_def

lemma replace_from_char:
  "replace_from [a] [b] s = map (\<lambda>c. if c = a then b else c) s"
proof (induction s)
  case Nil
  show ?case by (simp add: replace_from.simps)
next
  case (Cons c cs)
  show ?case
    by (subst replace_from.simps) (simp add: Cons.IH)
qed

lemma sanitize_map:
  "sanitize s = map (\<lambda>c. if c = CHR '':'' then CHR ''_'' else c) s"
  by (simp add: sanitize_def replace_def replace_from_char)

lemma digit_char_cases:
  "digit_char d \<in> set ''0123456789''"
proof -
  have "d mod 10 < length ''0123456789''" by simp
  then show ?thesis
    unfolding digit_char_def by (rule nth_mem)
qed

lemma digits_nat_chars: "set (digits_nat n) \<subseteq> set ''0123456789''"
proof (induction n rule: digits_nat.induct)
  case (1 n)
  show ?case
  proof (cases "n < 10")
    case True
    then show ?thesis
      using digit_char_cases [of n] by (subst digits_nat.simps) simp
  next
    case False
    then show ?thesis
      using 1 digit_char_cases [of "n mod 10"] by (subst digits_nat.simps) simp
  qed
qed

lemma digits_nat_nonempty: "digits_nat n \<noteq> []"
  by (subst digits_nat.simps) simp

lemma str_int_nonempty: "str_int i \<noteq> []"
  by (simp add: str_int_def digits_nat_nonempty)

lemma sep_notin_digits_nat: "sep \<notin> set (digits_nat n)"
proof -
  have "sep \<notin> set ''0123456789''"
    by (simp add: sep_def)
  then show ?thesis
    using digits_nat_chars [of n] by blast
qed

lemma sep_notin_str_int: "sep \<notin> set (str_int i)"
  by (simp add: str_int_def sep_notin_digits_nat) (simp add: sep_def)

lemma hd_str_int_not_sep: "\<not> startswith_sep (str_int i @ rest)"
proof -
  obtain c cs where "str_int i = c # cs"
    using str_int_nonempty [of i] by (cases "str_int i") auto
  then show ?thesis
    using sep_notin_str_int [of i] by (auto simp: startswith_sep_def)
qed

lemma split_sep_nonempty: "split_sep s \<noteq> []"
  by (induction s) (auto split: list.splits)

lemma split_sep_snoc:
  "c \<noteq> sep \<Longrightarrow> split_sep (s @ [c]) = butlast (split_sep s) @ [last (split_sep s) @ [c]]"
proof (induction s)
  case Nil
  then show ?case by simp
next
  case (Cons a s)
  then show ?case
    using split_sep_nonempty [of s] split_sep_nonempty [of "s @ [c]"]
    by (auto split: list.splits)
qed

lemma norm_comps_snoc:
  "k \<noteq> [] \<Longrightarrow> k \<noteq> ''.'' \<Longrightarrow> k \<noteq> ''..'' \<Longrightarrow>
   norm_comps i acc (pre @ [k]) = norm_comps i acc pre @ [k]"
  by (induction pre arbitrary: acc) auto

lemma join_sep_snoc_last:
  "k \<noteq> [] \<Longrightarrow> join_sep (ys @ [k]) \<noteq> [] \<and> last (join_sep (ys @ [k])) = last k"
proof (induction ys)
  case Nil
  then show ?case by simp
next
  case (Cons y ys)
  then show ?case by (cases ys) auto
qed

lemma normpath_last:
  assumes "x \<noteq> []" "last x \<noteq> sep" "last x \<noteq> CHR ''.''"
  shows "normpath x \<noteq> [] \<and> last (normpath x) = last x"
proof -
  obtain s c where x: "x = s @ [c]"
    using assms(1) by (metis append_butlast_last_id)
  have c: "c \<noteq> sep" "c \<noteq> CHR ''.''"
    using assms x by auto
  let ?k = "last (split_sep s) @ [c]"
  have k: "?k \<noteq> []" "?k \<noteq> ''.''" "?k \<noteq> ''..''"
    using c by (auto simp: append_eq_Cons_conv)
  have "split_sep x = butlast (split_sep s) @ [?k]"
    using c(1) x by (simp add: split_sep_snoc)
  then have n: "norm_comps (initial_slashes_of x) [] (split_sep x)
      = norm_comps (initial_slashes_of x) [] (butlast (split_sep s)) @ [?k]"
    using k by (simp add: norm_comps_snoc)
  have j: "join_sep (norm_comps (initial_slashes_of x) [] (split_sep x)) \<noteq> []
      \<and> last (join_sep (norm_comps (initial_slashes_of x) [] (split_sep x))) = c"
    using join_sep_snoc_last [OF k(1)] n by simp
  show ?thesis
    using j assms(1) x by (simp add: normpath_def Let_def)
qed

lemma path_join_last: "b \<noteq> [] \<Longrightarrow> path_join a b \<noteq> [] \<and> last (path_join a b) = last b"
  by (simp add: path_join_def)

lemma abspath_last:
  assumes "p \<noteq> []" "last p \<noteq> sep" "last p \<noteq> CHR ''.''"
  shows "last (abspath cwd p) = last p"
  using assms normpath_last [of p] normpath_last [of "path_join cwd p"] path_join_last [of p cwd]
  by (simp add: abspath_def)

lemma output_file_last:
  "output_file_of channel_name d s e \<noteq> [] \<and> last (output_file_of channel_name d s e) = CHR ''f''"
  using path_join_last [of "replace channel_name '':'' ''_'' @ ''_'' @ str_int s @ ''_'' @ str_int e @ ''.gwf''" d]
  by (simp add: output_file_of_def)

lemma output_key_not_fin:
  "abspath cwd (output_file_of channel_name d s e) \<noteq> abspath cwd fin_file"
proof -
  have "last (abspath cwd (output_file_of channel_name d s e)) = CHR ''f''"
    using output_file_last [of channel_name d s e] abspath_last [of "output_file_of channel_name d s e" cwd]
    by (simp add: sep_def)
  moreover have "last (abspath cwd fin_file) = CHR ''t''"
    using abspath_last [of fin_file cwd] by (simp add: fin_file_def sep_def)
  ultimately show ?thesis by auto
qed

section \<open>Facts about the file system and one pair of the driver\<close>

lemma events_record_event: "events (record_event e w) = events w @ [e]"
  by (simp add: record_event_def)

lemma disk_record_event: "disk (record_event e w) = disk w"
  by (simp add: record_event_def)

lemma fin_pending_record_event: "fin_pending (record_event e w) = fin_pending w"
  by (simp add: record_event_def)

lemma events_fin_write: "events (fin_write cwd t w) = events w @ [FinWrite t]"
  by (simp add: fin_write_def fin_flush_def record_event_def Let_def)

lemma manifest_text_fin_write: "manifest_text cwd (fin_write cwd t w) = manifest_text cwd w @ t"
  by (simp add: manifest_text_def fin_write_def fin_flush_def record_event_def Let_def file_text_def)

lemma manifest_text_record_event: "manifest_text cwd (record_event e w) = manifest_text cwd w"
  by (simp add: manifest_text_def record_event_def)

text \<open>Directory creation never touches a regular file.\<close>

lemma mkdir_exist_ok_cases:
  "mkdir_exist_ok name d = Inr d' \<Longrightarrow> d' = d \<or> (d name = None \<and> d' = d(name \<mapsto> Dir))"
  by (auto simp: mkdir_exist_ok_def node_at_def split: option.splits node.splits if_splits)

lemma mkdir_exist_ok_file_text:
  "mkdir_exist_ok name d = Inr d' \<Longrightarrow> file_text d' k = file_text d k"
  using mkdir_exist_ok_cases [of name d d'] by (auto simp: file_text_def)

lemma makedirs_key_file_text:
  "makedirs_key name d = Inr d' \<Longrightarrow> file_text d' k = file_text d k"
proof (induction name d arbitrary: d' rule: makedirs_key.induct)
  case (1 name d)
  show ?case
  proof (cases "dirname name \<noteq> [] \<and> basename name \<noteq> [] \<and> node_at d (dirname name) = None")
    case True
    then obtain d1 where d1: "makedirs_key (dirname name) d = Inr d1"
      and m: "mkdir_exist_ok name d1 = Inr d'"
      using "1.prems" by (subst (asm) makedirs_key.simps) (auto simp: Let_def split: sum.splits)
    have "file_text d1 k = file_text d k"
      using "1.IH" [OF refl refl True d1] .
    then show ?thesis
      using mkdir_exist_ok_file_text [OF m] by simp
  next
    case False
    then have "mkdir_exist_ok name d = Inr d'"
      using "1.prems" by (subst (asm) makedirs_key.simps) (auto simp: Let_def)
    then show ?thesis
      by (rule mkdir_exist_ok_file_text)
  qed
qed

lemma makedirs_file_text:
  "makedirs cwd name d = Inr d' \<Longrightarrow> file_text d' k = file_text d k"
  by (auto simp: makedirs_def split: if_splits dest: makedirs_key_file_text)

lemma write_file_other:
  "write_file cwd path content d = Inr d' \<Longrightarrow> k \<noteq> abspath cwd path \<Longrightarrow> d' k = d k"
  by (auto simp: write_file_def Let_def split: if_splits option.splits node.splits)

lemma write_file_file_text_other:
  "write_file cwd path content d = Inr d' \<Longrightarrow> k \<noteq> abspath cwd path \<Longrightarrow>
   file_text d' k = file_text d k"
  using write_file_other [of cwd path content d d' k] by (simp add: file_text_def)

lemma save_series_Completed:
  assumes "save_series cwd channel_name channel_dir s e data w = (Completed, w')"
  shows "\<exists>d1 d2.
    makedirs cwd (time_dir_path_of channel_dir s e) (disk w) = Inr d1 \<and>
    write_file cwd (output_file_of channel_name (time_dir_path_of channel_dir s e) s e)
      (payload data) d1 = Inr d2 \<and>
    w' = record_event
      (Printed (''Added to fin.txt: ''
         @ abspath cwd (output_file_of channel_name (time_dir_path_of channel_dir s e) s e)
         @ '' '' @ py_format (t0 data) @ '' '' @ py_format (dt data) @ '' 0 0''))
      (fin_write cwd
        (manifest_line cwd (output_file_of channel_name (time_dir_path_of channel_dir s e) s e) data)
        (record_event
          (Printed (''Aux data for channel '' @ [quote] @ channel_name @ [quote] @ '' from ''
             @ str_int s @ '' to '' @ str_int e @ '' saved to ''
             @ output_file_of channel_name (time_dir_path_of channel_dir s e) s e))
          ((record_event
              (WriteFile (output_file_of channel_name (time_dir_path_of channel_dir s e) s e))
              ((record_event (Makedirs (time_dir_path_of channel_dir s e)) w)\<lparr>disk := d1\<rparr>))
           \<lparr>disk := d2\<rparr>)))"
  using assms
  by (auto simp: save_series_def Let_def disk_record_event split: sum.splits)

lemma process_time_row_Completed:
  assumes "process_time_row fetch cwd channel_name channel_dir tr w = (Completed, w')"
  shows "\<exists>data. fetch channel_name (row_start tr) (row_end tr) nds_host = Inr data \<and>
     save_series cwd channel_name channel_dir (row_start tr) (row_end tr) data
       (record_event (Fetch channel_name (row_start tr) (row_end tr) nds_host) w) = (Completed, w')"
  using assms by (auto simp: process_time_row_def Let_def split: sum.splits)

lemma save_series_events:
  assumes "save_series cwd channel_name channel_dir s e data w = (Completed, w')"
  shows "events w' = events w @
    [Makedirs (time_dir_path_of channel_dir s e),
     WriteFile (output_file_of channel_name (time_dir_path_of channel_dir s e) s e),
     Printed (''Aux data for channel '' @ [quote] @ channel_name @ [quote] @ '' from ''
        @ str_int s @ '' to '' @ str_int e @ '' saved to ''
        @ output_file_of channel_name (time_dir_path_of channel_dir s e) s e),
     FinWrite (manifest_line cwd
        (output_file_of channel_name (time_dir_path_of channel_dir s e) s e) data),
     Printed (''Added to fin.txt: ''
        @ abspath cwd (output_file_of channel_name (time_dir_path_of channel_dir s e) s e)
        @ '' '' @ py_format (t0 data) @ '' '' @ py_format (dt data) @ '' 0 0'')]"
proof -
  obtain d1 d2 where w': "w' = record_event
      (Printed (''Added to fin.txt: ''
         @ abspath cwd (output_file_of channel_name (time_dir_path_of channel_dir s e) s e)
         @ '' '' @ py_format (t0 data) @ '' '' @ py_format (dt data) @ '' 0 0''))
      (fin_write cwd
        (manifest_line cwd (output_file_of channel_name (time_dir_path_of channel_dir s e) s e) data)
        (record_event
          (Printed (''Aux data for channel '' @ [quote] @ channel_name @ [quote] @ '' from ''
             @ str_int s @ '' to '' @ str_int e @ '' saved to ''
             @ output_file_of channel_name (time_dir_path_of channel_dir s e) s e))
          ((record_event
              (WriteFile (output_file_of channel_name (time_dir_path_of channel_dir s e) s e))
              ((record_event (Makedirs (time_dir_path_of channel_dir s e)) w)\<lparr>disk := d1\<rparr>))
           \<lparr>disk := d2\<rparr>)))"
    using save_series_Completed [OF assms] by blast
  show ?thesis
    unfolding w' by (simp add: events_record_event events_fin_write)
qed

lemma save_series_manifest_text:
  assumes "save_series cwd channel_name channel_dir s e data w = (Completed, w')"
  shows "manifest_text cwd w' = manifest_text cwd w
     @ manifest_line cwd (output_file_of channel_name (time_dir_path_of channel_dir s e) s e) data"
proof -
  let ?F = "output_file_of channel_name (time_dir_path_of channel_dir s e) s e"
  obtain d1 d2 where m: "makedirs cwd (time_dir_path_of channel_dir s e) (disk w) = Inr d1"
    and wr: "write_file cwd ?F (payload data) d1 = Inr d2"
    and w': "w' = record_event
      (Printed (''Added to fin.txt: '' @ abspath cwd ?F
         @ '' '' @ py_format (t0 data) @ '' '' @ py_format (dt data) @ '' 0 0''))
      (fin_write cwd (manifest_line cwd ?F data)
        (record_event
          (Printed (''Aux data for channel '' @ [quote] @ channel_name @ [quote] @ '' from ''
             @ str_int s @ '' to '' @ str_int e @ '' saved to '' @ ?F))
          ((record_event (WriteFile ?F)
              ((record_event (Makedirs (time_dir_path_of channel_dir s e)) w)\<lparr>disk := d1\<rparr>))
           \<lparr>disk := d2\<rparr>)))"
    using save_series_Completed [OF assms] by blast
  have k: "abspath cwd fin_file \<noteq> abspath cwd ?F"
    using output_key_not_fin [of cwd channel_name "time_dir_path_of channel_dir s e" s e] by simp
  have "file_text d2 (abspath cwd fin_file) = file_text d1 (abspath cwd fin_file)"
    using write_file_file_text_other [OF wr k] .
  also have "\<dots> = file_text (disk w) (abspath cwd fin_file)"
    using makedirs_file_text [OF m] .
  finally have f: "file_text d2 (abspath cwd fin_file) = file_text (disk w) (abspath cwd fin_file)" .
  have "manifest_text cwd w' = manifest_text cwd
      ((record_event (WriteFile ?F)
          ((record_event (Makedirs (time_dir_path_of channel_dir s e)) w)\<lparr>disk := d1\<rparr>))
       \<lparr>disk := d2\<rparr>) @ manifest_line cwd ?F data"
    unfolding w' by (simp add: manifest_text_record_event manifest_text_fin_write)
  also have "manifest_text cwd
      ((record_event (WriteFile ?F)
          ((record_event (Makedirs (time_dir_path_of channel_dir s e)) w)\<lparr>disk := d1\<rparr>))
       \<lparr>disk := d2\<rparr>) = manifest_text cwd w"
    using f by (simp add: manifest_text_def record_event_def)
  finally show ?thesis .
qed

text \<open>\<^verbatim>\<open>s.split(c)\<close> for a one-character separator.\<close>

fun split_on :: "char \<Rightarrow> string \<Rightarrow> string list" where
  "split_on c [] = [[]]"
| "split_on c (x # xs) =
     (if x = c then [] # split_on c xs
      else (case split_on c xs of
              [] \<Rightarrow> [[x]]
            | w # ws \<Rightarrow> (x # w) # ws))"

text \<open>The space-separated fields of a manifest line: the line without its final newline,
  split at every space.\<close>

definition space_separated_fields :: "string \<Rightarrow> string list" where
  "space_separated_fields line =
     split_on (CHR '' '') (if line \<noteq> [] \<and> last line = newline then butlast line else line)"

lemma split_on_nonempty: "split_on c s \<noteq> []"
  by (induction s) (auto split: list.splits)

lemma split_on_none: "c \<notin> set a \<Longrightarrow> split_on c a = [a]"
  by (induction a) (auto split: list.splits)

lemma split_on_field: "c \<notin> set a \<Longrightarrow> split_on c (a @ c # rest) = a # split_on c rest"
  by (induction a) (auto split: list.splits simp: split_on_nonempty)

lemma five_fields:
  assumes "CHR '' '' \<notin> set a" "CHR '' '' \<notin> set b" "CHR '' '' \<notin> set c"
  shows "space_separated_fields (a @ '' '' @ b @ '' '' @ c @ '' 0 0'' @ [newline])
    = [a, b, c, ''0'', ''0'']"
proof -
  have "butlast (a @ '' '' @ b @ '' '' @ c @ '' 0 0'' @ [newline])
      = a @ CHR '' '' # (b @ CHR '' '' # (c @ CHR '' '' # (''0'' @ CHR '' '' # ''0'')))"
    by (simp add: butlast_append)
  moreover have "split_on (CHR '' '')
      (a @ CHR '' '' # (b @ CHR '' '' # (c @ CHR '' '' # (''0'' @ CHR '' '' # ''0''))))
      = [a, b, c, ''0'', ''0'']"
    using assms by (simp add: split_on_field split_on_none)
  ultimately show ?thesis
    by (simp add: space_separated_fields_def)
qed

lemma space_notin_str_int: "CHR '' '' \<notin> set (str_int i)"
proof -
  have a: "CHR '' '' \<notin> set ''0123456789''"
    by simp
  have b: "CHR '' '' \<notin> set (digits_nat n)" for n
    using digits_nat_chars [of n] a by blast
  show ?thesis
    by (cases "i < 0") (simp_all add: str_int_def b)
qed

lemma split_sep_chars: "w \<in> set (split_sep s) \<Longrightarrow> set w \<subseteq> set s"
proof (induction s arbitrary: w)
  case Nil
  then show ?case by simp
next
  case (Cons x xs)
  show ?case
  proof (cases "x = sep")
    case True
    then show ?thesis
      using Cons by auto
  next
    case False
    obtain v vs where v: "split_sep xs = v # vs"
      using split_sep_nonempty [of xs] by (cases "split_sep xs") auto
    then have "w = x # v \<or> w \<in> set vs"
      using Cons.prems False by auto
    then show ?thesis
      using Cons.IH [of v] Cons.IH [of w] v by auto
  qed
qed

lemma norm_comps_subset: "set (norm_comps i acc parts) \<subseteq> set acc \<union> set parts"
proof (induction parts arbitrary: acc)
  case Nil
  show ?case by simp
next
  case (Cons part parts)
  have b: "set (butlast acc) \<subseteq> set acc"
    by (auto dest: in_set_butlastD)
  show ?case
    using Cons.IH [of acc] Cons.IH [of "acc @ [part]"] Cons.IH [of "butlast acc"] b
    by (simp only: norm_comps.simps split: if_splits) auto
qed

lemma join_sep_chars: "set (join_sep cs) \<subseteq> \<Union> (set ` set cs) \<union> {sep}"
  by (induction cs rule: join_sep.induct) auto

lemma normpath_chars: "set (normpath p) \<subseteq> set p \<union> {sep, CHR ''.''}"
proof (cases "p = []")
  case True
  then show ?thesis by (simp add: normpath_def)
next
  case False
  let ?cs = "norm_comps (initial_slashes_of p) [] (split_sep p)"
  have "\<Union> (set ` set ?cs) \<subseteq> set p"
    using norm_comps_subset [of "initial_slashes_of p" "[]" "split_sep p"] split_sep_chars [of _ p]
    by auto
  then have "set (join_sep ?cs) \<subseteq> set p \<union> {sep}"
    using join_sep_chars [of ?cs] by blast
  moreover have "set (replicate (initial_slashes_of p) sep) \<subseteq> {sep}"
    by auto
  ultimately have "set (replicate (initial_slashes_of p) sep @ join_sep ?cs) \<subseteq> set p \<union> {sep}"
    by (simp only: set_append) blast
  then show ?thesis
    using False by (auto simp: normpath_def Let_def)
qed

lemma path_join_chars: "set (path_join a b) \<subseteq> set a \<union> set b \<union> {sep}"
  by (auto simp: path_join_def)

lemma abspath_chars: "set (abspath cwd p) \<subseteq> set cwd \<union> set p \<union> {sep, CHR ''.''}"
  using normpath_chars [of p] normpath_chars [of "path_join cwd p"] path_join_chars [of cwd p]
  by (auto simp: abspath_def)

lemma space_notin_output_path:
  assumes "CHR '' '' \<notin> set cwd" "CHR '' '' \<notin> set channel_name" "CHR '' '' \<notin> set channel_dir"
  shows "CHR '' '' \<notin> set (abspath cwd
    (output_file_of channel_name (time_dir_path_of channel_dir s e) s e))"
proof -
  have sn: "CHR '' '' \<notin> set (sanitize channel_name)"
    using assms(2) by (auto simp: sanitize_map)
  have d: "CHR '' '' \<notin> set (time_dir_path_of channel_dir s e)"
    using assms(3) space_notin_str_int [of s] space_notin_str_int [of e]
      path_join_chars [of channel_dir "str_int s @ ''_'' @ str_int e"]
    by (auto simp: time_dir_path_of_def sep_def)
  have "CHR '' '' \<notin> set (output_file_of channel_name (time_dir_path_of channel_dir s e) s e)"
    using d sn space_notin_str_int [of s] space_notin_str_int [of e]
      path_join_chars [of "time_dir_path_of channel_dir s e"
        "sanitize channel_name @ ''_'' @ str_int s @ ''_'' @ str_int e @ ''.gwf''"]
    by (auto simp: output_file_of_def sanitize_def sep_def)
  then show ?thesis
    using assms(1)
      abspath_chars [of cwd "output_file_of channel_name (time_dir_path_of channel_dir s e) s e"]
    by (auto simp: sep_def)
qed

text \<open>
  C1 (as amended). When a pair is processed to the end (the fetch returned a series), the
  text written to the manifest for it is the absolute output file path, the rendering of
  \<open>t0\<close>, the rendering of \<open>dt\<close>, \<open>0\<close> and \<open>0\<close>, joined by single spaces and
  followed by a newline, and the manifest grows by exactly this line. When the working
  directory, the channel name, the channel directory and the two renderings contain no
  space, the line has exactly these five space-separated fields. With \<open>t0 = 1238166018\<close>
  and \<open>dt\<close> rendered \<open>0.0625\<close> the line is the path followed by
  \<open> 1238166018 0.0625 0 0\<close> and a newline.
\<close>

theorem manifest_line_five_fields:
  assumes "process_time_row fetch cwd channel_name channel_dir tr w = (Completed, w')"
  shows "\<exists>data output_file.
    fetch channel_name (row_start tr) (row_end tr) nds_host = Inr data \<and>
    output_file = output_file_of channel_name
        (time_dir_path_of channel_dir (row_start tr) (row_end tr)) (row_start tr) (row_end tr) \<and>
    manifest_text cwd w' = manifest_text cwd w @ manifest_line cwd output_file data \<and>
    filter (\<lambda>ev. case ev of FinWrite _ \<Rightarrow> True | _ \<Rightarrow> False) (drop (length (events w)) (events w'))
      = [FinWrite (manifest_line cwd output_file data)] \<and>
    manifest_line cwd output_file data =
      abspath cwd output_file @ '' '' @ py_format (t0 data) @ '' '' @ py_format (dt data)
        @ '' 0 0'' @ [newline] \<and>
    (CHR '' '' \<notin> set cwd \<and> CHR '' '' \<notin> set channel_name \<and> CHR '' '' \<notin> set channel_dir \<and>
     CHR '' '' \<notin> set (py_format (t0 data)) \<and> CHR '' '' \<notin> set (py_format (dt data)) \<longrightarrow>
       space_separated_fields (manifest_line cwd output_file data)
         = [abspath cwd output_file, py_format (t0 data), py_format (dt data), ''0'', ''0'']) \<and>
    (t0 data = PyInt 1238166018 \<and> dt data = PyObject ''0.0625'' \<longrightarrow>
       manifest_line cwd output_file data
         = abspath cwd output_file @ '' 1238166018 0.0625 0 0'' @ [newline])"
proof -
  obtain data where f: "fetch channel_name (row_start tr) (row_end tr) nds_host = Inr data"
    and s: "save_series cwd channel_name channel_dir (row_start tr) (row_end tr) data
       (record_event (Fetch channel_name (row_start tr) (row_end tr) nds_host) w) = (Completed, w')"
    using process_time_row_Completed [OF assms] by blast
  let ?F = "output_file_of channel_name
        (time_dir_path_of channel_dir (row_start tr) (row_end tr)) (row_start tr) (row_end tr)"
  have m: "manifest_text cwd w' = manifest_text cwd w @ manifest_line cwd ?F data"
    using save_series_manifest_text [OF s] by (simp add: manifest_text_record_event)
  have e: "filter (\<lambda>ev. case ev of FinWrite _ \<Rightarrow> True | _ \<Rightarrow> False)
      (drop (length (events w)) (events w')) = [FinWrite (manifest_line cwd ?F data)]"
    using save_series_events [OF s] by (simp add: events_record_event)
  have j: "manifest_line cwd ?F data =
      abspath cwd ?F @ '' '' @ py_format (t0 data) @ '' '' @ py_format (dt data)
        @ '' 0 0'' @ [newline]"
    by (simp add: manifest_line_def)
  have k: "CHR '' '' \<notin> set cwd \<and> CHR '' '' \<notin> set channel_name \<and> CHR '' '' \<notin> set channel_dir \<and>
     CHR '' '' \<notin> set (py_format (t0 data)) \<and> CHR '' '' \<notin> set (py_format (dt data)) \<longrightarrow>
       space_separated_fields (manifest_line cwd ?F data)
         = [abspath cwd ?F, py_format (t0 data), py_format (dt data), ''0'', ''0'']"
  proof
    assume n: "CHR '' '' \<notin> set cwd \<and> CHR '' '' \<notin> set channel_name \<and> CHR '' '' \<notin> set channel_dir \<and>
     CHR '' '' \<notin> set (py_format (t0 data)) \<and> CHR '' '' \<notin> set (py_format (dt data))"
    then have "CHR '' '' \<notin> set (abspath cwd ?F)"
      using space_notin_output_path by blast
    then show "space_separated_fields (manifest_line cwd ?F data)
         = [abspath cwd ?F, py_format (t0 data), py_format (dt data), ''0'', ''0'']"
      unfolding j using n by (intro five_fields) simp_all
  qed
  have x: "t0 data = PyInt 1238166018 \<and> dt data = PyObject ''0.0625'' \<longrightarrow>
       manifest_line cwd ?F data = abspath cwd ?F @ '' 1238166018 0.0625 0 0'' @ [newline]"
    by (simp add: manifest_line_def str_int_eval)
  show ?thesis
    using f m e j k x by blast
qed

lemmas run_eval = process_time_row_def save_series_def Let_def record_event_def makedirs_def
    write_file_def fin_write_def fin_flush_def buffer_size_def manifest_line_def
    time_dir_path_of_def output_file_of_def path_join_def startswith_sep_def endswith_sep_def
    sep_def str_int_eval replace_def replace_from.simps abspath_def normpath_def
    initial_slashes_of_def makedirs_key.simps mkdir_exist_ok_def node_at_def is_root_def
    dirname_def basename_def rstrip_sep_def nds_host_def quote_def newline_def

theorem manifest_line_five_fields_witness:
  "fst (process_time_row
      (\<lambda>c s e h. Inr \<lparr>payload = ''x'', t0 = PyInt 1238166018, dt = PyObject ''0.0625''\<rparr>)
      ''/w'' ''H1:A'' ''H1_A'' \<lparr>row_start = 1238166018, row_end = 1238170549\<rparr>
      \<lparr>disk = [''/w'' \<mapsto> Dir, ''/w/H1_A'' \<mapsto> Dir], fin_pending = [], events = []\<rparr>)
     = Completed \<and>
   manifest_text ''/w'' (snd (process_time_row
      (\<lambda>c s e h. Inr \<lparr>payload = ''x'', t0 = PyInt 1238166018, dt = PyObject ''0.0625''\<rparr>)
      ''/w'' ''H1:A'' ''H1_A'' \<lparr>row_start = 1238166018, row_end = 1238170549\<rparr>
      \<lparr>disk = [''/w'' \<mapsto> Dir, ''/w/H1_A'' \<mapsto> Dir], fin_pending = [], events = []\<rparr>))
     = ''/w/H1_A/1238166018_1238170549/H1_A_1238166018_1238170549.gwf 1238166018 0.0625 0 0''
        @ [newline] \<and>
   space_separated_fields (manifest_text ''/w'' (snd (process_time_row
      (\<lambda>c s e h. Inr \<lparr>payload = ''x'', t0 = PyInt 1238166018, dt = PyObject ''0.0625''\<rparr>)
      ''/w'' ''H1:A'' ''H1_A'' \<lparr>row_start = 1238166018, row_end = 1238170549\<rparr>
      \<lparr>disk = [''/w'' \<mapsto> Dir, ''/w/H1_A'' \<mapsto> Dir], fin_pending = [], events = []\<rparr>)))
     = [''/w/H1_A/1238166018_1238170549/H1_A_1238166018_1238170549.gwf'',
        ''1238166018'', ''0.0625'', ''0'', ''0'']"
proof -
  let ?f = "\<lambda>c s e h. Inr \<lparr>payload = ''x'', t0 = PyInt 1238166018, dt = PyObject ''0.0625''\<rparr>
    :: error + series"
  let ?tr = "\<lparr>row_start = 1238166018, row_end = 1238170549\<rparr>"
  let ?w = "\<lparr>disk = [''/w'' \<mapsto> Dir, ''/w/H1_A'' \<mapsto> Dir], fin_pending = [], events = []\<rparr>"
  let ?r = "process_time_row ?f ''/w'' ''H1:A'' ''H1_A'' ?tr ?w"
  have c: "fst ?r = Completed"
    by (simp add: run_eval)
  then have h: "?r = (Completed, snd ?r)"
    by (metis prod.collapse)
  obtain data output_file where d: "?f ''H1:A'' (row_start ?tr) (row_end ?tr) nds_host = Inr data"
    and o: "output_file = output_file_of ''H1:A''
        (time_dir_path_of ''H1_A'' (row_start ?tr) (row_end ?tr)) (row_start ?tr) (row_end ?tr)"
    and m: "manifest_text ''/w'' (snd ?r) = manifest_text ''/w'' ?w @ manifest_line ''/w'' output_file data"
    and k: "CHR '' '' \<notin> set ''/w'' \<and> CHR '' '' \<notin> set ''H1:A'' \<and> CHR '' '' \<notin> set ''H1_A'' \<and>
     CHR '' '' \<notin> set (py_format (t0 data)) \<and> CHR '' '' \<notin> set (py_format (dt data)) \<longrightarrow>
       space_separated_fields (manifest_line ''/w'' output_file data)
         = [abspath ''/w'' output_file, py_format (t0 data), py_format (dt data), ''0'', ''0'']"
    using manifest_line_five_fields [OF h] by blast
  have o': "abspath ''/w'' output_file
      = ''/w/H1_A/1238166018_1238170549/H1_A_1238166018_1238170549.gwf''"
    unfolding o by (simp add: run_eval)
  have d': "t0 data = PyInt 1238166018" "dt data = PyObject ''0.0625''"
    using d by auto
  have t: "py_format (t0 data) = ''1238166018''" "py_format (dt data) = ''0.0625''"
    using d' by (simp_all add: str_int_eval)
  have e: "manifest_text ''/w'' ?w = []"
    by (simp add: manifest_text_def file_text_def)
  have l: "manifest_text ''/w'' (snd ?r) = manifest_line ''/w'' output_file data"
    using m e by simp
  have "manifest_line ''/w'' output_file data
      = ''/w/H1_A/1238166018_1238170549/H1_A_1238166018_1238170549.gwf 1238166018 0.0625 0 0''
        @ [newline]"
    using o' t by (simp add: manifest_line_def)
  moreover have "space_separated_fields (manifest_line ''/w'' output_file data)
      = [''/w/H1_A/1238166018_1238170549/H1_A_1238166018_1238170549.gwf'',
         ''1238166018'', ''0.0625'', ''0'', ''0'']"
    using k o' t by simp
  ultimately show ?thesis
    using c l by simp
qed

text \<open>
  The claim as first stated, exactly five space-separated fields for every successful
  fetch, fails where a field contains a space: in the working directory \<open>/my data\<close> the
  line splits into six fields, and with \<open>t0\<close> and \<open>dt\<close> rendered with their unit
  (\<open>1238166018.0 s\<close>, \<open>0.0625 s\<close>) into seven.
\<close>

theorem manifest_line_six_and_seven_fields:
  "fst (process_time_row
      (\<lambda>c s e h. Inr \<lparr>payload = ''x'', t0 = PyInt 1, dt = PyObject ''0.0625''\<rparr>)
      ''/my data'' ''H1:A'' ''H1_A'' \<lparr>row_start = 1, row_end = 2\<rparr>
      \<lparr>disk = [''/my data'' \<mapsto> Dir, ''/my data/H1_A'' \<mapsto> Dir], fin_pending = [],
         events = []\<rparr>)
     = Completed \<and>
   space_separated_fields (manifest_text ''/my data'' (snd (process_time_row
      (\<lambda>c s e h. Inr \<lparr>payload = ''x'', t0 = PyInt 1, dt = PyObject ''0.0625''\<rparr>)
      ''/my data'' ''H1:A'' ''H1_A'' \<lparr>row_start = 1, row_end = 2\<rparr>
      \<lparr>disk = [''/my data'' \<mapsto> Dir, ''/my data/H1_A'' \<mapsto> Dir], fin_pending = [],
         events = []\<rparr>)))
     = [''/my'', ''data/H1_A/1_2/H1_A_1_2.gwf'', ''1'', ''0.0625'', ''0'', ''0''] \<and>
   fst (process_time_row
      (\<lambda>c s e h. Inr \<lparr>payload = ''x'', t0 = PyObject ''1238166018.0 s'',
         dt = PyObject ''0.0625 s''\<rparr>)
      ''/w'' ''H1:A'' ''H1_A'' \<lparr>row_start = 1, row_end = 2\<rparr>
      \<lparr>disk = [''/w'' \<mapsto> Dir, ''/w/H1_A'' \<mapsto> Dir], fin_pending = [], events = []\<rparr>)
     = Completed \<and>
   space_separated_fields (manifest_text ''/w'' (snd (process_time_row
      (\<lambda>c s e h. Inr \<lparr>payload = ''x'', t0 = PyObject ''1238166018.0 s'',
         dt = PyObject ''0.0625 s''\<rparr>)
      ''/w'' ''H1:A'' ''H1_A'' \<lparr>row_start = 1, row_end = 2\<rparr>
      \<lparr>disk = [''/w'' \<mapsto> Dir, ''/w/H1_A'' \<mapsto> Dir], fin_pending = [], events = []\<rparr>)))
     = [''/w/H1_A/1_2/H1_A_1_2.gwf'', ''1238166018.0'', ''s'', ''0.0625'', ''s'', ''0'', ''0'']"
  by (simp add: run_eval manifest_text_def file_text_def fin_file_def space_separated_fields_def)

lemma endswith_sep_iff: "endswith_sep p \<longleftrightarrow> p \<noteq> [] \<and> last p = sep"
proof (cases p rule: rev_cases)
  case Nil
  then show ?thesis by (simp add: endswith_sep_def)
next
  case (snoc ys y)
  then show ?thesis by (simp add: endswith_sep_def)
qed

lemma startswith_sep_iff: "startswith_sep p \<longleftrightarrow> p \<noteq> [] \<and> hd p = sep"
  by (cases p) (simp_all add: startswith_sep_def)

lemma last_str_int_not_sep: "last (str_int i @ rest) = sep \<Longrightarrow> rest \<noteq> []"
  using sep_notin_str_int [of i] str_int_nonempty [of i] last_in_set [of "str_int i"]
  by (cases "rest = []") auto

lemma str_int_not_path_char:
  assumes "c \<in> set (str_int i)"
  shows "c \<noteq> sep \<and> c \<noteq> CHR ''.'' \<and> c \<noteq> CHR ''t''"
proof -
  have a: "sep \<notin> set ''0123456789'' \<and> CHR ''.'' \<notin> set ''0123456789''
      \<and> CHR ''t'' \<notin> set ''0123456789''"
    by (simp add: sep_def)
  have b: "x \<noteq> sep \<and> x \<noteq> CHR ''.'' \<and> x \<noteq> CHR ''t''" if "x \<in> set (digits_nat n)" for x n
    using that digits_nat_chars [of n] a by blast
  have "c = CHR ''-'' \<or> c \<in> set (digits_nat (nat (- i))) \<or> c \<in> set (digits_nat (nat i))"
    using assms by (cases "i < 0") (auto simp: str_int_def)
  then show ?thesis
  proof (elim disjE)
    assume "c = CHR ''-''"
    then show ?thesis by (simp add: sep_def)
  next
    assume "c \<in> set (digits_nat (nat (- i)))"
    then show ?thesis by (rule b)
  next
    assume "c \<in> set (digits_nat (nat i))"
    then show ?thesis by (rule b)
  qed
qed

lemma time_dir_path_join:
  "time_dir_path_of channel_dir s e =
     (if channel_dir = [] \<or> endswith_sep channel_dir
      then channel_dir @ str_int s @ ''_'' @ str_int e
      else channel_dir @ ''/'' @ str_int s @ ''_'' @ str_int e)"
  using hd_str_int_not_sep [of s "''_'' @ str_int e"]
  by (simp add: time_dir_path_of_def path_join_def sep_def)

lemma time_dir_path_end:
  "time_dir_path_of channel_dir s e \<noteq> [] \<and> \<not> endswith_sep (time_dir_path_of channel_dir s e)"
proof -
  have n: "str_int s @ ''_'' @ str_int e \<noteq> []"
    by simp
  have l: "last (time_dir_path_of channel_dir s e) = last (str_int e)"
    using path_join_last [OF n, of channel_dir] str_int_nonempty [of e]
    by (simp add: time_dir_path_of_def)
  have "last (str_int e) \<in> set (str_int e)"
    using str_int_nonempty [of e] by simp
  then have "last (str_int e) \<noteq> sep"
    using sep_notin_str_int [of e] by auto
  then show ?thesis
    using l path_join_last [OF n, of channel_dir]
    by (simp add: endswith_sep_iff time_dir_path_of_def)
qed

lemma output_file_join:
  "output_file_of channel_name (time_dir_path_of channel_dir s e) s e =
     (if startswith_sep (sanitize channel_name)
      then sanitize channel_name @ ''_'' @ str_int s @ ''_'' @ str_int e @ ''.gwf''
      else time_dir_path_of channel_dir s e @ ''/'' @ sanitize channel_name @ ''_''
             @ str_int s @ ''_'' @ str_int e @ ''.gwf'')"
proof -
  have a: "startswith_sep (sanitize channel_name @ ''_'' @ str_int s @ ''_'' @ str_int e @ ''.gwf'')
      \<longleftrightarrow> startswith_sep (sanitize channel_name)"
    by (cases "sanitize channel_name") (simp_all add: startswith_sep_def sep_def)
  show ?thesis
    using a time_dir_path_end [of channel_dir s e]
    by (simp add: output_file_of_def path_join_def sanitize_def sep_def)
qed

lemma sanitize_no_sep:
  assumes "channel_name \<noteq> []" "sep \<notin> set channel_name"
  shows "sanitize channel_name \<noteq> []" "\<not> startswith_sep (sanitize channel_name)"
    "\<not> endswith_sep (sanitize channel_name)"
proof -
  have s: "sep \<notin> set (sanitize channel_name)"
    using assms(2) by (auto simp: sanitize_map sep_def)
  show n: "sanitize channel_name \<noteq> []"
    using assms(1) by (simp add: sanitize_map)
  show "\<not> startswith_sep (sanitize channel_name)"
    by (metis s n hd_in_set startswith_sep_iff)
  show "\<not> endswith_sep (sanitize channel_name)"
    by (metis s n last_in_set endswith_sep_iff)
qed

lemma mkdir_exist_ok_is_dir: "mkdir_exist_ok name d = Inr d' \<Longrightarrow> node_at d' name = Some Dir"
  by (auto simp: mkdir_exist_ok_def node_at_def split: option.splits node.splits if_splits)

lemma makedirs_key_is_dir: "makedirs_key name d = Inr d' \<Longrightarrow> node_at d' name = Some Dir"
  by (subst (asm) makedirs_key.simps)
     (auto simp: Let_def split: if_splits sum.splits dest: mkdir_exist_ok_is_dir)

lemma makedirs_is_dir: "makedirs cwd name d = Inr d' \<Longrightarrow> node_at d' (abspath cwd name) = Some Dir"
  by (auto simp: makedirs_def split: if_splits dest: makedirs_key_is_dir)

lemma write_file_result:
  "write_file cwd path content d = Inr d' \<Longrightarrow>
     d' = d(abspath cwd path \<mapsto> File content) \<and> node_at d (abspath cwd path) \<noteq> Some Dir"
  by (auto simp: write_file_def Let_def split: if_splits option.splits node.splits)

lemma write_file_node_at:
  assumes "write_file cwd path content d = Inr d'"
  shows "node_at d' (abspath cwd path) = Some (File content)"
    and "node_at d k = Some Dir \<Longrightarrow> node_at d' k = Some Dir"
proof -
  have r: "d' = d(abspath cwd path \<mapsto> File content)" "node_at d (abspath cwd path) \<noteq> Some Dir"
    using write_file_result [OF assms] by auto
  show "node_at d' (abspath cwd path) = Some (File content)"
    using r by (auto simp: node_at_def)
  show "node_at d k = Some Dir \<Longrightarrow> node_at d' k = Some Dir"
    using r by (auto simp: node_at_def split: if_splits)
qed

lemma save_series_disk:
  assumes "save_series cwd channel_name channel_dir s e data w = (Completed, w')"
  shows "node_at (disk w') (abspath cwd (time_dir_path_of channel_dir s e)) = Some Dir"
    and "node_at (disk w')
      (abspath cwd (output_file_of channel_name (time_dir_path_of channel_dir s e) s e))
      = Some (File (payload data))"
proof -
  let ?D = "time_dir_path_of channel_dir s e"
  let ?F = "output_file_of channel_name ?D s e"
  obtain d1 d2 where m: "makedirs cwd ?D (disk w) = Inr d1"
    and wr: "write_file cwd ?F (payload data) d1 = Inr d2"
    and w': "w' = record_event
      (Printed (''Added to fin.txt: '' @ abspath cwd ?F
         @ '' '' @ py_format (t0 data) @ '' '' @ py_format (dt data) @ '' 0 0''))
      (fin_write cwd (manifest_line cwd ?F data)
        (record_event
          (Printed (''Aux data for channel '' @ [quote] @ channel_name @ [quote] @ '' from ''
             @ str_int s @ '' to '' @ str_int e @ '' saved to '' @ ?F))
          ((record_event (WriteFile ?F)
              ((record_event (Makedirs ?D) w)\<lparr>disk := d1\<rparr>))
           \<lparr>disk := d2\<rparr>)))"
    using save_series_Completed [OF assms] by blast
  have k: "abspath cwd fin_file \<noteq> abspath cwd ?F"
    using output_key_not_fin [of cwd channel_name ?D s e] by simp
  have fw: "node_at (disk (fin_write cwd t v)) k = node_at (disk v) k"
    if "k \<noteq> abspath cwd fin_file" for t v k
    using that by (simp add: fin_write_def fin_flush_def Let_def record_event_def node_at_def)
  have dD: "node_at d2 (abspath cwd ?D) = Some Dir"
    using write_file_node_at(2) [OF wr] makedirs_is_dir [OF m] by simp
  have dF: "node_at d2 (abspath cwd ?F) = Some (File (payload data))"
    using write_file_node_at(1) [OF wr] .
  have nf: "node_at d2 (abspath cwd fin_file) \<noteq> Some Dir \<or> True" by simp
  show "node_at (disk w') (abspath cwd ?F) = Some (File (payload data))"
    unfolding w' using dF k by (simp add: disk_record_event fw)
  show "node_at (disk w') (abspath cwd ?D) = Some Dir"
  proof (cases "abspath cwd ?D = abspath cwd fin_file")
    case False
    then show ?thesis
      unfolding w' using dD by (simp add: disk_record_event fw)
  next
    case True
    have "last (abspath cwd fin_file) = CHR ''t''"
      using abspath_last [of fin_file cwd] by (simp add: fin_file_def sep_def)
    moreover have "last ?D \<noteq> sep \<and> last ?D \<noteq> CHR ''.'' \<and> last ?D \<noteq> CHR ''t'' \<and> ?D \<noteq> []"
    proof -
      have n: "str_int s @ ''_'' @ str_int e \<noteq> []" by simp
      have l: "last ?D = last (str_int e)" "?D \<noteq> []"
        using path_join_last [OF n, of channel_dir] str_int_nonempty [of e]
        by (simp_all add: time_dir_path_of_def)
      have "last (str_int e) \<in> set (str_int e)"
        using str_int_nonempty [of e] by simp
      then show ?thesis
        using l str_int_not_path_char [of "last (str_int e)" e] by simp
    qed
    ultimately show ?thesis
      using abspath_last [of ?D cwd] True by simp
  qed
qed

text \<open>
  C2. For a pair that is processed to the end, the directory created for it is the
  sanitized channel name joined (\<^verbatim>\<open>os.path.join\<close>) with \<open>start_end\<close>, and the file
  written is that directory joined with \<open>sanitized_start_end.gwf\<close>; sanitizing replaces
  every colon by an underscore and changes nothing else. For a channel name that is not
  empty and has no slash, these are literally \<open>sanitized/start_end\<close> and
  \<open>sanitized/start_end/sanitized_start_end.gwf\<close>. Afterwards the directory exists and the
  file holds the fetched data.
\<close>

theorem output_directory_and_file_path:
  assumes "process_time_row fetch cwd channel_name (replace channel_name '':'' ''_'') tr w
    = (Completed, w')"
  shows "\<exists>data dir_path file_path.
    sanitize channel_name = map (\<lambda>c. if c = CHR '':'' then CHR ''_'' else c) channel_name \<and>
    dir_path = path_join (sanitize channel_name) (str_int (row_start tr) @ ''_'' @ str_int (row_end tr)) \<and>
    file_path = path_join dir_path
      (sanitize channel_name @ ''_'' @ str_int (row_start tr) @ ''_'' @ str_int (row_end tr)
         @ ''.gwf'') \<and>
    filter (\<lambda>ev. case ev of Makedirs _ \<Rightarrow> True | WriteFile _ \<Rightarrow> True | _ \<Rightarrow> False)
      (drop (length (events w)) (events w')) = [Makedirs dir_path, WriteFile file_path] \<and>
    fetch channel_name (row_start tr) (row_end tr) nds_host = Inr data \<and>
    node_at (disk w') (abspath cwd dir_path) = Some Dir \<and>
    node_at (disk w') (abspath cwd file_path) = Some (File (payload data)) \<and>
    (channel_name \<noteq> [] \<and> sep \<notin> set channel_name \<longrightarrow>
       dir_path = sanitize channel_name @ ''/'' @ str_int (row_start tr) @ ''_'' @ str_int (row_end tr) \<and>
       file_path = dir_path @ ''/'' @ sanitize channel_name @ ''_'' @ str_int (row_start tr) @ ''_''
                @ str_int (row_end tr) @ ''.gwf'')"
proof -
  let ?s = "row_start tr" and ?e = "row_end tr"
  let ?D = "time_dir_path_of (sanitize channel_name) ?s ?e"
  let ?F = "output_file_of channel_name ?D ?s ?e"
  have a: "process_time_row fetch cwd channel_name (sanitize channel_name) tr w = (Completed, w')"
    using assms by (simp add: sanitize_def)
  obtain data where f: "fetch channel_name ?s ?e nds_host = Inr data"
    and sv: "save_series cwd channel_name (sanitize channel_name) ?s ?e data
       (record_event (Fetch channel_name ?s ?e nds_host) w) = (Completed, w')"
    using process_time_row_Completed [OF a] by blast
  have D: "?D = path_join (sanitize channel_name) (str_int ?s @ ''_'' @ str_int ?e)"
    by (simp add: time_dir_path_of_def)
  have F: "?F = path_join ?D
      (sanitize channel_name @ ''_'' @ str_int ?s @ ''_'' @ str_int ?e @ ''.gwf'')"
    by (simp add: output_file_of_def sanitize_def)
  have ev: "filter (\<lambda>ev. case ev of Makedirs _ \<Rightarrow> True | WriteFile _ \<Rightarrow> True | _ \<Rightarrow> False)
      (drop (length (events w)) (events w')) = [Makedirs ?D, WriteFile ?F]"
    using save_series_events [OF sv] by (simp add: events_record_event)
  have dk: "node_at (disk w') (abspath cwd ?D) = Some Dir"
    "node_at (disk w') (abspath cwd ?F) = Some (File (payload data))"
    using save_series_disk [OF sv] by simp_all
  have lit: "?D = sanitize channel_name @ ''/'' @ str_int ?s @ ''_'' @ str_int ?e \<and>
      ?F = ?D @ ''/'' @ sanitize channel_name @ ''_'' @ str_int ?s @ ''_'' @ str_int ?e @ ''.gwf''"
    if "channel_name \<noteq> [] \<and> sep \<notin> set channel_name"
    using that sanitize_no_sep [of channel_name]
      time_dir_path_join [of "sanitize channel_name" ?s ?e]
      output_file_join [of channel_name "sanitize channel_name" ?s ?e]
    by simp
  show ?thesis
  proof (rule exI [of _ data], rule exI [of _ ?D], rule exI [of _ ?F], intro conjI)
    show "sanitize channel_name = map (\<lambda>c. if c = CHR '':'' then CHR ''_'' else c) channel_name"
      by (rule sanitize_map)
    show "?D = path_join (sanitize channel_name) (str_int ?s @ ''_'' @ str_int ?e)"
      by (rule D)
    show "?F = path_join ?D
        (sanitize channel_name @ ''_'' @ str_int ?s @ ''_'' @ str_int ?e @ ''.gwf'')"
      by (rule F)
    show "filter (\<lambda>ev. case ev of Makedirs _ \<Rightarrow> True | WriteFile _ \<Rightarrow> True | _ \<Rightarrow> False)
        (drop (length (events w)) (events w')) = [Makedirs ?D, WriteFile ?F]"
      by (rule ev)
    show "fetch channel_name ?s ?e nds_host = Inr data"
      by (rule f)
    show "node_at (disk w') (abspath cwd ?D) = Some Dir"
      by (rule dk(1))
    show "node_at (disk w') (abspath cwd ?F) = Some (File (payload data))"
      by (rule dk(2))
    show "channel_name \<noteq> [] \<and> sep \<notin> set channel_name \<longrightarrow>
        ?D = sanitize channel_name @ ''/'' @ str_int ?s @ ''_'' @ str_int ?e \<and>
        ?F = ?D @ ''/'' @ sanitize channel_name @ ''_'' @ str_int ?s @ ''_'' @ str_int ?e
               @ ''.gwf''"
      using lit by blast
  qed
qed

theorem output_directory_and_file_path_witness:
  "fst (process_time_row (\<lambda>c s e h. Inr \<lparr>payload = ''x'', t0 = PyInt 1, dt = PyObject ''0.5''\<rparr>)
      ''/w'' ''H1:A'' (replace ''H1:A'' '':'' ''_'') \<lparr>row_start = 1, row_end = 2\<rparr>
      \<lparr>disk = [''/w'' \<mapsto> Dir, ''/w/H1_A'' \<mapsto> Dir], fin_pending = [], events = []\<rparr>)
     = Completed \<and>
   filter (\<lambda>ev. case ev of Makedirs _ \<Rightarrow> True | WriteFile _ \<Rightarrow> True | _ \<Rightarrow> False)
     (events (snd (process_time_row
        (\<lambda>c s e h. Inr \<lparr>payload = ''x'', t0 = PyInt 1, dt = PyObject ''0.5''\<rparr>)
        ''/w'' ''H1:A'' (replace ''H1:A'' '':'' ''_'') \<lparr>row_start = 1, row_end = 2\<rparr>
        \<lparr>disk = [''/w'' \<mapsto> Dir, ''/w/H1_A'' \<mapsto> Dir], fin_pending = [], events = []\<rparr>)))
     = [Makedirs ''H1_A/1_2'', WriteFile ''H1_A/1_2/H1_A_1_2.gwf'']"
proof -
  let ?f = "\<lambda>c s e h. Inr \<lparr>payload = ''x'', t0 = PyInt 1, dt = PyObject ''0.5''\<rparr> :: error + series"
  let ?tr = "\<lparr>row_start = 1, row_end = 2\<rparr>"
  let ?w = "\<lparr>disk = [''/w'' \<mapsto> Dir, ''/w/H1_A'' \<mapsto> Dir], fin_pending = [], events = []\<rparr>"
  let ?r = "process_time_row ?f ''/w'' ''H1:A'' (replace ''H1:A'' '':'' ''_'') ?tr ?w"
  have c: "fst ?r = Completed"
    by (simp add: run_eval)
  then have h: "?r = (Completed, snd ?r)"
    by (metis prod.collapse)
  have n: "''H1:A'' \<noteq> [] \<and> sep \<notin> set ''H1:A''"
    by (simp add: sep_def)
  obtain dir_path file_path where
    e: "filter (\<lambda>ev. case ev of Makedirs _ \<Rightarrow> True | WriteFile _ \<Rightarrow> True | _ \<Rightarrow> False)
      (drop (length (events ?w)) (events (snd ?r))) = [Makedirs dir_path, WriteFile file_path]"
    and l: "''H1:A'' \<noteq> [] \<and> sep \<notin> set ''H1:A'' \<longrightarrow>
       dir_path = sanitize ''H1:A'' @ ''/'' @ str_int (row_start ?tr) @ ''_'' @ str_int (row_end ?tr) \<and>
       file_path = dir_path @ ''/'' @ sanitize ''H1:A'' @ ''_'' @ str_int (row_start ?tr) @ ''_''
                @ str_int (row_end ?tr) @ ''.gwf''"
    using output_directory_and_file_path [OF h] by blast
  have "dir_path = ''H1_A/1_2'' \<and> file_path = ''H1_A/1_2/H1_A_1_2.gwf''"
    using l n by (simp add: sanitize_map str_int_eval)
  with e c show ?thesis by simp
qed

fun is_fetch :: "event \<Rightarrow> bool" where
  "is_fetch (Fetch c s e h) = True"
| "is_fetch _ = False"

text \<open>The events of one pair: the fetch call alone when it raises, otherwise the fetch
  call followed by what lines 41 to 60 do.\<close>

fun pair_events :: "fetcher \<Rightarrow> string \<Rightarrow> pair \<Rightarrow> event list" where
  "pair_events fetch cwd (c, s, e) =
     (case fetch c s e nds_host of
        Inl _ \<Rightarrow> [Fetch c s e nds_host]
      | Inr data \<Rightarrow>
          [Fetch c s e nds_host,
           Makedirs (pair_dir (c, s, e)),
           WriteFile (pair_file (c, s, e)),
           Printed (''Aux data for channel '' @ [quote] @ c @ [quote] @ '' from ''
              @ str_int s @ '' to '' @ str_int e @ '' saved to '' @ pair_file (c, s, e)),
           FinWrite (manifest_line cwd (pair_file (c, s, e)) data),
           Printed (''Added to fin.txt: '' @ abspath cwd (pair_file (c, s, e))
              @ '' '' @ py_format (t0 data) @ '' '' @ py_format (dt data) @ '' 0 0'')])"

definition fetch_ok :: "fetcher \<Rightarrow> pair \<Rightarrow> bool" where
  "fetch_ok fetch p = (case p of (c, s, e) \<Rightarrow> (case fetch c s e nds_host of Inl _ \<Rightarrow> False | Inr _ \<Rightarrow> True))"

lemma fetch_calls_simps:
  "fetch_calls [] = []"
  "fetch_calls (Fetch c s e h # es) = (c, s, e) # fetch_calls es"
  "fetch_calls (Printed t # es) = fetch_calls es"
  "fetch_calls (Makedirs t # es) = fetch_calls es"
  "fetch_calls (WriteFile t # es) = fetch_calls es"
  "fetch_calls (FinWrite t # es) = fetch_calls es"
  "fetch_calls (a @ b) = fetch_calls a @ fetch_calls b"
  by (simp_all add: fetch_calls_def)

lemma written_paths_simps:
  "written_paths [] = []"
  "written_paths (WriteFile t # es) = t # written_paths es"
  "written_paths (Printed t # es) = written_paths es"
  "written_paths (Makedirs t # es) = written_paths es"
  "written_paths (Fetch c s e h # es) = written_paths es"
  "written_paths (FinWrite t # es) = written_paths es"
  "written_paths (a @ b) = written_paths a @ written_paths b"
  by (simp_all add: written_paths_def)

lemma fin_writes_simps:
  "fin_writes [] = []"
  "fin_writes (FinWrite t # es) = t # fin_writes es"
  "fin_writes (Printed t # es) = fin_writes es"
  "fin_writes (Makedirs t # es) = fin_writes es"
  "fin_writes (Fetch c s e h # es) = fin_writes es"
  "fin_writes (WriteFile t # es) = fin_writes es"
  "fin_writes (a @ b) = fin_writes a @ fin_writes b"
  by (simp_all add: fin_writes_def)

lemma made_dirs_simps:
  "made_dirs [] = []"
  "made_dirs (Makedirs t # es) = t # made_dirs es"
  "made_dirs (Printed t # es) = made_dirs es"
  "made_dirs (FinWrite t # es) = made_dirs es"
  "made_dirs (Fetch c s e h # es) = made_dirs es"
  "made_dirs (WriteFile t # es) = made_dirs es"
  "made_dirs (a @ b) = made_dirs a @ made_dirs b"
  by (simp_all add: made_dirs_def)

lemma pair_events_ok:
  assumes "fetch c s e nds_host = Inr data"
  shows "fetch_calls (pair_events fetch cwd (c, s, e)) = [(c, s, e)]"
    and "written_paths (pair_events fetch cwd (c, s, e)) = [pair_file (c, s, e)]"
    and "fin_writes (pair_events fetch cwd (c, s, e)) = [pair_line fetch cwd (c, s, e)]"
    and "made_dirs (pair_events fetch cwd (c, s, e)) = [pair_dir (c, s, e)]"
  using assms
  by (simp_all add: fetch_calls_simps written_paths_simps fin_writes_simps made_dirs_simps)

text \<open>One pair, processed to the end.\<close>

lemma process_time_row_Completed_full:
  assumes "process_time_row fetch cwd c (sanitize c) tr w = (Completed, w')"
  shows "fetch_ok fetch (c, row_start tr, row_end tr)"
    and "events w' = events w @ pair_events fetch cwd (c, row_start tr, row_end tr)"
    and "manifest_text cwd w' = manifest_text cwd w @ pair_line fetch cwd (c, row_start tr, row_end tr)"
proof -
  obtain data where f: "fetch c (row_start tr) (row_end tr) nds_host = Inr data"
    and sv: "save_series cwd c (sanitize c) (row_start tr) (row_end tr) data
       (record_event (Fetch c (row_start tr) (row_end tr) nds_host) w) = (Completed, w')"
    using process_time_row_Completed [OF assms] by blast
  show "fetch_ok fetch (c, row_start tr, row_end tr)"
    using f by (simp add: fetch_ok_def)
  show "events w' = events w @ pair_events fetch cwd (c, row_start tr, row_end tr)"
    using save_series_events [OF sv] f by (simp add: events_record_event)
  show "manifest_text cwd w' = manifest_text cwd w @ pair_line fetch cwd (c, row_start tr, row_end tr)"
    using save_series_manifest_text [OF sv] f by (simp add: manifest_text_record_event)
qed

text \<open>One pair, ended by an exception: it came from the fetch, from creating the
  directory or from writing the file.\<close>

lemma process_time_row_Raised:
  assumes "process_time_row fetch cwd c cd tr w = (Raised err, w')"
  shows "(fetch c (row_start tr) (row_end tr) nds_host = Inl err \<and>
          w' = record_event (Fetch c (row_start tr) (row_end tr) nds_host) w)
       \<or> (\<exists>data. fetch c (row_start tr) (row_end tr) nds_host = Inr data \<and>
            makedirs cwd (time_dir_path_of cd (row_start tr) (row_end tr)) (disk w) = Inl err \<and>
            w' = record_event (Makedirs (time_dir_path_of cd (row_start tr) (row_end tr)))
                   (record_event (Fetch c (row_start tr) (row_end tr) nds_host) w))
       \<or> (\<exists>data d1. fetch c (row_start tr) (row_end tr) nds_host = Inr data \<and>
            makedirs cwd (time_dir_path_of cd (row_start tr) (row_end tr)) (disk w) = Inr d1 \<and>
            write_file cwd
              (output_file_of c (time_dir_path_of cd (row_start tr) (row_end tr))
                 (row_start tr) (row_end tr))
              (payload data) d1 = Inl err \<and>
            w' = record_event
                   (WriteFile (output_file_of c (time_dir_path_of cd (row_start tr) (row_end tr))
                      (row_start tr) (row_end tr)))
                   ((record_event (Makedirs (time_dir_path_of cd (row_start tr) (row_end tr)))
                      (record_event (Fetch c (row_start tr) (row_end tr) nds_host) w))
                    \<lparr>disk := d1\<rparr>))"
proof (cases "fetch c (row_start tr) (row_end tr) nds_host")
  case (Inl a)
  then show ?thesis
    using assms by (simp add: process_time_row_def Let_def)
next
  case (Inr data)
  then have sv: "save_series cwd c cd (row_start tr) (row_end tr) data
       (record_event (Fetch c (row_start tr) (row_end tr) nds_host) w) = (Raised err, w')"
    using assms by (simp add: process_time_row_def Let_def)
  show ?thesis
  proof (cases "makedirs cwd (time_dir_path_of cd (row_start tr) (row_end tr)) (disk w)")
    case (Inl a)
    then show ?thesis
      using sv Inr by (simp add: save_series_def Let_def disk_record_event)
  next
    case mk: (Inr d1)
    show ?thesis
    proof (cases "write_file cwd
              (output_file_of c (time_dir_path_of cd (row_start tr) (row_end tr))
                 (row_start tr) (row_end tr)) (payload data) d1")
      case (Inl a)
      then show ?thesis
        using sv Inr mk by (simp add: save_series_def Let_def disk_record_event)
    next
      case (Inr d2)
      then show ?thesis
        using sv mk by (simp add: save_series_def Let_def disk_record_event)
    qed
  qed
qed

definition fetch_raises :: "fetcher \<Rightarrow> pair \<Rightarrow> error \<Rightarrow> bool" where
  "fetch_raises fetch p err = (case p of (c, s, e) \<Rightarrow> fetch c s e nds_host = Inl err)"

text \<open>The events of the pairs \<open>ps\<close>, all processed to the end.\<close>

definition done_block :: "fetcher \<Rightarrow> string \<Rightarrow> pair list \<Rightarrow> event list \<Rightarrow> bool" where
  "done_block fetch cwd ps new \<longleftrightarrow>
     list_all (fetch_ok fetch) ps \<and> fetch_calls new = ps \<and>
     fin_writes new = map (pair_line fetch cwd) ps \<and>
     written_paths new = map pair_file ps"

text \<open>
  How a run over the pairs \<open>before @ after\<close> was ended by the exception \<open>err\<close>, read
  from its fetch calls \<open>fc\<close>, its file writes \<open>wp\<close> and whether its last event is a
  fetch call (\<open>lf\<close>): a channel directory could not be made; or the fetch of the next
  pair raised \<open>err\<close>; or that pair was fetched and its directory could not be made, or
  its file could not be written.
\<close>

definition how_stopped ::
  "fetcher \<Rightarrow> error \<Rightarrow> pair list \<Rightarrow> pair list \<Rightarrow> pair list \<Rightarrow> string list \<Rightarrow> bool \<Rightarrow> bool" where
  "how_stopped fetch err before after fc wp lf \<longleftrightarrow>
     (fc = before \<and> wp = map pair_file before \<and> \<not> lf) \<or>
     (\<exists>p rest. after = p # rest \<and> fc = before @ [p] \<and>
        ((fetch_raises fetch p err \<and> wp = map pair_file before \<and> lf) \<or>
         (fetch_ok fetch p \<and> \<not> lf \<and>
            (wp = map pair_file before \<or> wp = map pair_file before @ [pair_file p]))))"

text \<open>The events of a run over the pairs \<open>ps\<close> that an exception \<open>err\<close> ended: the
  pairs before the stop were all fetched and have their manifest lines.\<close>

definition stopped :: "fetcher \<Rightarrow> string \<Rightarrow> pair list \<Rightarrow> error \<Rightarrow> event list \<Rightarrow> bool" where
  "stopped fetch cwd ps err new \<longleftrightarrow>
     new \<noteq> [] \<and>
     (\<exists>before after.
        ps = before @ after \<and> list_all (fetch_ok fetch) before \<and>
        fin_writes new = map (pair_line fetch cwd) before \<and>
        how_stopped fetch err before after (fetch_calls new) (written_paths new)
          (is_fetch (last new)))"

lemma how_stopped_after:
  "how_stopped fetch err before after fc wp lf \<Longrightarrow>
   how_stopped fetch err (ps1 @ before) after (ps1 @ fc) (map pair_file ps1 @ wp) lf"
  unfolding how_stopped_def by auto

lemma how_stopped_extend:
  "how_stopped fetch err before after fc wp lf \<Longrightarrow>
   how_stopped fetch err before (after @ ps2) fc wp lf"
  unfolding how_stopped_def by auto

lemma done_block_Nil: "done_block fetch cwd [] []"
  by (simp add: done_block_def fetch_calls_simps fin_writes_simps written_paths_simps)

lemma done_block_append:
  "done_block fetch cwd ps1 new1 \<Longrightarrow> done_block fetch cwd ps2 new2 \<Longrightarrow>
   done_block fetch cwd (ps1 @ ps2) (new1 @ new2)"
  by (simp add: done_block_def fetch_calls_simps fin_writes_simps written_paths_simps)

lemma done_block_Makedirs:
  "done_block fetch cwd ps new \<Longrightarrow> done_block fetch cwd ps (Makedirs d # new)"
  by (simp add: done_block_def fetch_calls_simps fin_writes_simps written_paths_simps)

lemma done_block_pair:
  "fetch_ok fetch p \<Longrightarrow> done_block fetch cwd [p] (pair_events fetch cwd p)"
proof -
  assume ok: "fetch_ok fetch p"
  obtain c s e where p: "p = (c, s, e)"
    by (cases p) auto
  obtain data where "fetch c s e nds_host = Inr data"
    using ok p by (auto simp: fetch_ok_def split: sum.splits)
  then show ?thesis
    using ok pair_events_ok [of fetch c s e data cwd] by (simp add: done_block_def p)
qed

lemma stopped_after_done:
  assumes d: "done_block fetch cwd ps1 new1" and s: "stopped fetch cwd ps2 err new2"
  shows "stopped fetch cwd (ps1 @ ps2) err (new1 @ new2)"
proof -
  obtain before after where b: "ps2 = before @ after" "list_all (fetch_ok fetch) before"
    "fin_writes new2 = map (pair_line fetch cwd) before"
    "how_stopped fetch err before after (fetch_calls new2) (written_paths new2)
       (is_fetch (last new2))"
    and n: "new2 \<noteq> []"
    using s unfolding stopped_def by blast
  have l: "last (new1 @ new2) = last new2"
    using n by simp
  have fc: "fetch_calls (new1 @ new2) = ps1 @ fetch_calls new2"
    using d by (simp add: done_block_def fetch_calls_simps)
  have wp: "written_paths (new1 @ new2) = map pair_file ps1 @ written_paths new2"
    using d by (simp add: done_block_def written_paths_simps)
  have "ps1 @ ps2 = (ps1 @ before) @ after"
    using b(1) by simp
  moreover have "list_all (fetch_ok fetch) (ps1 @ before)"
    using d b(2) by (simp add: done_block_def)
  moreover have "fin_writes (new1 @ new2) = map (pair_line fetch cwd) (ps1 @ before)"
    using d b(3) by (simp add: done_block_def fin_writes_simps)
  moreover have "how_stopped fetch err (ps1 @ before) after (fetch_calls (new1 @ new2))
      (written_paths (new1 @ new2)) (is_fetch (last (new1 @ new2)))"
    unfolding l fc wp using b(4) by (rule how_stopped_after)
  moreover have "new1 @ new2 \<noteq> []"
    using n by simp
  ultimately show ?thesis
    unfolding stopped_def by blast
qed

lemma stopped_extend:
  assumes s: "stopped fetch cwd ps1 err new"
  shows "stopped fetch cwd (ps1 @ ps2) err new"
proof -
  obtain before after where b: "ps1 = before @ after" "list_all (fetch_ok fetch) before"
    "fin_writes new = map (pair_line fetch cwd) before"
    "how_stopped fetch err before after (fetch_calls new) (written_paths new)
       (is_fetch (last new))"
    and n: "new \<noteq> []"
    using s unfolding stopped_def by blast
  have "ps1 @ ps2 = before @ (after @ ps2)"
    using b(1) by simp
  moreover have "how_stopped fetch err before (after @ ps2) (fetch_calls new)
      (written_paths new) (is_fetch (last new))"
    using b(4) by (rule how_stopped_extend)
  ultimately show ?thesis
    unfolding stopped_def using n b(2,3) by blast
qed

lemma stopped_Makedirs:
  assumes s: "stopped fetch cwd ps err new"
  shows "stopped fetch cwd ps err (Makedirs d # new)"
proof -
  have "done_block fetch cwd [] [Makedirs d]"
    using done_block_Makedirs [OF done_block_Nil] .
  then show ?thesis
    using stopped_after_done [of fetch cwd "[]" "[Makedirs d]" ps err new] s by simp
qed

lemma stopped_at_Makedirs: "stopped fetch cwd ps err [Makedirs d]"
proof -
  have "how_stopped fetch err [] ps (fetch_calls [Makedirs d]) (written_paths [Makedirs d])
      (is_fetch (last [Makedirs d]))"
    by (simp add: how_stopped_def fetch_calls_simps written_paths_simps)
  then show ?thesis
    unfolding stopped_def
    by (intro conjI exI [of _ "[]"] exI [of _ ps]) (simp_all add: fin_writes_simps)
qed

definition channel_events :: "fetcher \<Rightarrow> string \<Rightarrow> time_row list \<Rightarrow> channel_row \<Rightarrow> event list" where
  "channel_events fetch cwd time_ranges c =
     Makedirs (sanitize (channel c))
       # concat (map (pair_events fetch cwd) (pairs_of_channel time_ranges c))"

definition run_events :: "fetcher \<Rightarrow> string \<Rightarrow> channel_row list \<Rightarrow> time_row list \<Rightarrow> event list" where
  "run_events fetch cwd channels time_ranges =
     concat (map (channel_events fetch cwd time_ranges) channels)"

lemma done_block_pairs:
  "list_all (fetch_ok fetch) ps \<Longrightarrow> done_block fetch cwd ps (concat (map (pair_events fetch cwd) ps))"
proof (induction ps)
  case Nil
  show ?case by (simp add: done_block_Nil)
next
  case (Cons p ps)
  have "done_block fetch cwd ([p] @ ps)
      (pair_events fetch cwd p @ concat (map (pair_events fetch cwd) ps))"
    using Cons by (intro done_block_append done_block_pair) simp_all
  then show ?case by simp
qed

lemma pair_raised_stopped:
  assumes "process_time_row fetch cwd c (sanitize c) tr w = (Raised err, w')"
  shows "\<exists>new. events w' = events w @ new \<and>
     stopped fetch cwd [(c, row_start tr, row_end tr)] err new \<and>
     manifest_text cwd w' = manifest_text cwd w \<and> fin_writes new = []"
proof -
  let ?s = "row_start tr" and ?e = "row_end tr"
  let ?p = "(c, ?s, ?e)"
  let ?D = "time_dir_path_of (sanitize c) ?s ?e"
  let ?F = "output_file_of c ?D ?s ?e"
  have st: "stopped fetch cwd [?p] err new"
    if "new \<noteq> []" "fin_writes new = []"
      "how_stopped fetch err [] [?p] (fetch_calls new) (written_paths new) (is_fetch (last new))"
    for new
    unfolding stopped_def using that
    by (intro conjI exI [of _ "[]"] exI [of _ "[?p]"]) simp_all
  consider
    (fetch) "fetch c ?s ?e nds_host = Inl err" "w' = record_event (Fetch c ?s ?e nds_host) w"
  | (mkdir) data where "fetch c ?s ?e nds_host = Inr data"
      "w' = record_event (Makedirs ?D) (record_event (Fetch c ?s ?e nds_host) w)"
  | (wr) data d1 where "fetch c ?s ?e nds_host = Inr data"
      "makedirs cwd ?D (disk w) = Inr d1"
      "w' = record_event (WriteFile ?F)
              ((record_event (Makedirs ?D) (record_event (Fetch c ?s ?e nds_host) w))\<lparr>disk := d1\<rparr>)"
    using process_time_row_Raised [OF assms] by blast
  then show ?thesis
  proof cases
    case fetch
    have "how_stopped fetch err [] [?p] (fetch_calls [Fetch c ?s ?e nds_host])
        (written_paths [Fetch c ?s ?e nds_host]) (is_fetch (last [Fetch c ?s ?e nds_host]))"
      using fetch(1)
      by (simp add: how_stopped_def fetch_raises_def fetch_calls_simps written_paths_simps)
    then have "stopped fetch cwd [?p] err [Fetch c ?s ?e nds_host]"
      by (intro st) (simp_all add: fin_writes_simps)
    then show ?thesis
      using fetch(2)
      by (intro exI [of _ "[Fetch c ?s ?e nds_host]"])
         (simp add: events_record_event manifest_text_record_event fin_writes_simps)
  next
    case mkdir
    have "how_stopped fetch err [] [?p] (fetch_calls [Fetch c ?s ?e nds_host, Makedirs ?D])
        (written_paths [Fetch c ?s ?e nds_host, Makedirs ?D])
        (is_fetch (last [Fetch c ?s ?e nds_host, Makedirs ?D]))"
      using mkdir(1)
      by (simp add: how_stopped_def fetch_ok_def fetch_calls_simps written_paths_simps)
    then have "stopped fetch cwd [?p] err [Fetch c ?s ?e nds_host, Makedirs ?D]"
      by (intro st) (simp_all add: fin_writes_simps)
    then show ?thesis
      using mkdir(2)
      by (intro exI [of _ "[Fetch c ?s ?e nds_host, Makedirs ?D]"])
         (simp add: events_record_event manifest_text_record_event fin_writes_simps)
  next
    case wr
    have "how_stopped fetch err [] [?p]
        (fetch_calls [Fetch c ?s ?e nds_host, Makedirs ?D, WriteFile ?F])
        (written_paths [Fetch c ?s ?e nds_host, Makedirs ?D, WriteFile ?F])
        (is_fetch (last [Fetch c ?s ?e nds_host, Makedirs ?D, WriteFile ?F]))"
      using wr(1)
      by (simp add: how_stopped_def fetch_ok_def fetch_calls_simps written_paths_simps)
    then have "stopped fetch cwd [?p] err [Fetch c ?s ?e nds_host, Makedirs ?D, WriteFile ?F]"
      by (intro st) (simp_all add: fin_writes_simps)
    moreover have "manifest_text cwd w' = manifest_text cwd w"
      using wr(3) makedirs_file_text [OF wr(2), of "abspath cwd fin_file"]
      by (simp add: manifest_text_def record_event_def)
    ultimately show ?thesis
      using wr(3)
      by (intro exI [of _ "[Fetch c ?s ?e nds_host, Makedirs ?D, WriteFile ?F]"])
         (simp add: events_record_event fin_writes_simps)
  qed
qed

lemma time_loop_Completed:
  assumes "time_loop fetch cwd c (sanitize c) trs w = (Completed, w')"
  shows "list_all (fetch_ok fetch) (map (\<lambda>t. (c, row_start t, row_end t)) trs) \<and>
    events w' = events w
      @ concat (map (pair_events fetch cwd) (map (\<lambda>t. (c, row_start t, row_end t)) trs)) \<and>
    manifest_text cwd w' = manifest_text cwd w
      @ concat (map (pair_line fetch cwd) (map (\<lambda>t. (c, row_start t, row_end t)) trs))"
  using assms
proof (induction trs arbitrary: w)
  case Nil
  then show ?case by simp
next
  case (Cons t trs)
  obtain r1 w1 where s: "process_time_row fetch cwd c (sanitize c) t w = (r1, w1)"
    by (cases "process_time_row fetch cwd c (sanitize c) t w") auto
  have r1: "r1 = Completed"
    using Cons.prems s by (cases r1) auto
  then have rest: "time_loop fetch cwd c (sanitize c) trs w1 = (Completed, w')"
    using Cons.prems s by simp
  have p: "fetch_ok fetch (c, row_start t, row_end t)"
    "events w1 = events w @ pair_events fetch cwd (c, row_start t, row_end t)"
    "manifest_text cwd w1 = manifest_text cwd w @ pair_line fetch cwd (c, row_start t, row_end t)"
    using process_time_row_Completed_full [of fetch cwd c t w w1] s r1 by simp_all
  show ?case
    using Cons.IH [OF rest] p by simp
qed

lemma time_loop_Raised:
  assumes "time_loop fetch cwd c (sanitize c) trs w = (Raised err, w')"
  shows "\<exists>new. events w' = events w @ new \<and>
    stopped fetch cwd (map (\<lambda>t. (c, row_start t, row_end t)) trs) err new \<and>
    manifest_text cwd w' = manifest_text cwd w @ concat (fin_writes new)"
  using assms
proof (induction trs arbitrary: w)
  case Nil
  then show ?case by simp
next
  case (Cons t trs)
  let ?p = "(c, row_start t, row_end t)"
  let ?ps = "map (\<lambda>t. (c, row_start t, row_end t)) trs"
  obtain r1 w1 where s: "process_time_row fetch cwd c (sanitize c) t w = (r1, w1)"
    by (cases "process_time_row fetch cwd c (sanitize c) t w") auto
  show ?case
  proof (cases r1)
    case Completed
    then have rest: "time_loop fetch cwd c (sanitize c) trs w1 = (Raised err, w')"
      using Cons.prems s by simp
    obtain new where n: "events w' = events w1 @ new" "stopped fetch cwd ?ps err new"
      "manifest_text cwd w' = manifest_text cwd w1 @ concat (fin_writes new)"
      using Cons.IH [OF rest] by blast
    have p: "fetch_ok fetch ?p" "events w1 = events w @ pair_events fetch cwd ?p"
      "manifest_text cwd w1 = manifest_text cwd w @ pair_line fetch cwd ?p"
      using process_time_row_Completed_full [of fetch cwd c t w w1] s Completed by simp_all
    have d: "done_block fetch cwd [?p] (pair_events fetch cwd ?p)"
      using p(1) by (rule done_block_pair)
    have "stopped fetch cwd ([?p] @ ?ps) err (pair_events fetch cwd ?p @ new)"
      using d n(2) by (rule stopped_after_done)
    moreover have "fin_writes (pair_events fetch cwd ?p) = [pair_line fetch cwd ?p]"
      using d by (simp add: done_block_def)
    ultimately show ?thesis
      using n(1,3) p(2,3)
      by (intro exI [of _ "pair_events fetch cwd ?p @ new"]) (simp add: fin_writes_simps)
  next
    case (Raised e)
    then have eq: "e = err" "w1 = w'"
      using Cons.prems s by simp_all
    obtain new where n: "events w' = events w @ new" "stopped fetch cwd [?p] err new"
      "manifest_text cwd w' = manifest_text cwd w" "fin_writes new = []"
      using pair_raised_stopped [where fetch = fetch and cwd = cwd and c = c and tr = t
          and w = w and err = err and w' = w'] s Raised eq by blast
    have "stopped fetch cwd ([?p] @ ?ps) err new"
      using n(2) by (rule stopped_extend)
    then show ?thesis
      using n by (intro exI [of _ new]) simp
  qed
qed

lemma pairs_Cons: "pairs (c # cs) trs = pairs_of_channel trs c @ pairs cs trs"
  by (simp add: pairs_def)

lemma process_channel_row_Completed:
  assumes "process_channel_row fetch cwd trs c w = (Completed, w')"
  shows "list_all (fetch_ok fetch) (pairs_of_channel trs c) \<and>
    events w' = events w @ channel_events fetch cwd trs c \<and>
    manifest_text cwd w' = manifest_text cwd w
      @ concat (map (pair_line fetch cwd) (pairs_of_channel trs c))"
proof -
  let ?cd = "sanitize (channel c)"
  let ?w1 = "record_event (Makedirs ?cd) w"
  obtain d1 where m: "makedirs cwd ?cd (disk w) = Inr d1"
    and t: "time_loop fetch cwd (channel c) ?cd trs (?w1\<lparr>disk := d1\<rparr>) = (Completed, w')"
    using assms
    by (auto simp: process_channel_row_def Let_def sanitize_def disk_record_event split: sum.splits)
  have mt: "manifest_text cwd (?w1\<lparr>disk := d1\<rparr>) = manifest_text cwd w"
    using makedirs_file_text [OF m, of "abspath cwd fin_file"]
    by (simp add: manifest_text_def record_event_def)
  have ev: "events (?w1\<lparr>disk := d1\<rparr>) = events w @ [Makedirs ?cd]"
    by (simp add: record_event_def)
  show ?thesis
    using time_loop_Completed [OF t] mt ev
    by (simp add: channel_events_def pairs_of_channel_def)
qed

lemma process_channel_row_Raised:
  assumes "process_channel_row fetch cwd trs c w = (Raised err, w')"
  shows "\<exists>new. events w' = events w @ new \<and>
    stopped fetch cwd (pairs_of_channel trs c) err new \<and>
    manifest_text cwd w' = manifest_text cwd w @ concat (fin_writes new)"
proof -
  let ?cd = "sanitize (channel c)"
  let ?w1 = "record_event (Makedirs ?cd) w"
  show ?thesis
  proof (cases "makedirs cwd ?cd (disk w)")
    case (Inl e)
    then have "w' = ?w1"
      using assms by (simp add: process_channel_row_def Let_def sanitize_def disk_record_event)
    then show ?thesis
      using stopped_at_Makedirs [of fetch cwd "pairs_of_channel trs c" err ?cd]
      by (intro exI [of _ "[Makedirs ?cd]"])
         (simp add: events_record_event manifest_text_record_event fin_writes_simps)
  next
    case (Inr d1)
    then have t: "time_loop fetch cwd (channel c) ?cd trs (?w1\<lparr>disk := d1\<rparr>) = (Raised err, w')"
      using assms by (simp add: process_channel_row_def Let_def sanitize_def disk_record_event)
    have mt: "manifest_text cwd (?w1\<lparr>disk := d1\<rparr>) = manifest_text cwd w"
      using makedirs_file_text [OF Inr, of "abspath cwd fin_file"]
      by (simp add: manifest_text_def record_event_def)
    have ev: "events (?w1\<lparr>disk := d1\<rparr>) = events w @ [Makedirs ?cd]"
      by (simp add: record_event_def)
    obtain new where n: "events w' = events (?w1\<lparr>disk := d1\<rparr>) @ new"
      "stopped fetch cwd (pairs_of_channel trs c) err new"
      "manifest_text cwd w' = manifest_text cwd (?w1\<lparr>disk := d1\<rparr>) @ concat (fin_writes new)"
      using time_loop_Raised [OF t] by (auto simp: pairs_of_channel_def)
    have "stopped fetch cwd (pairs_of_channel trs c) err (Makedirs ?cd # new)"
      using n(2) by (rule stopped_Makedirs)
    then show ?thesis
      using n(1,3) mt ev
      by (intro exI [of _ "Makedirs ?cd # new"]) (simp add: fin_writes_simps)
  qed
qed

lemma done_block_channel:
  "list_all (fetch_ok fetch) (pairs_of_channel trs c) \<Longrightarrow>
   done_block fetch cwd (pairs_of_channel trs c) (channel_events fetch cwd trs c)"
  unfolding channel_events_def by (intro done_block_Makedirs done_block_pairs)

lemma channel_loop_Completed:
  assumes "channel_loop fetch cwd trs cs w = (Completed, w')"
  shows "list_all (fetch_ok fetch) (pairs cs trs) \<and>
    events w' = events w @ run_events fetch cwd cs trs \<and>
    manifest_text cwd w' = manifest_text cwd w @ concat (map (pair_line fetch cwd) (pairs cs trs))"
  using assms
proof (induction cs arbitrary: w)
  case Nil
  then show ?case by (simp add: pairs_def run_events_def)
next
  case (Cons c cs)
  obtain r1 w1 where s: "process_channel_row fetch cwd trs c w = (r1, w1)"
    by (cases "process_channel_row fetch cwd trs c w") auto
  have r1: "r1 = Completed"
    using Cons.prems s by (cases r1) auto
  then have rest: "channel_loop fetch cwd trs cs w1 = (Completed, w')"
    using Cons.prems s by simp
  have p: "list_all (fetch_ok fetch) (pairs_of_channel trs c)"
    "events w1 = events w @ channel_events fetch cwd trs c"
    "manifest_text cwd w1 = manifest_text cwd w
      @ concat (map (pair_line fetch cwd) (pairs_of_channel trs c))"
    using process_channel_row_Completed [of fetch cwd trs c w w1] s r1 by simp_all
  show ?case
    using Cons.IH [OF rest] p by (simp add: pairs_Cons run_events_def)
qed

lemma channel_loop_Raised:
  assumes "channel_loop fetch cwd trs cs w = (Raised err, w')"
  shows "\<exists>new. events w' = events w @ new \<and>
    stopped fetch cwd (pairs cs trs) err new \<and>
    manifest_text cwd w' = manifest_text cwd w @ concat (fin_writes new)"
  using assms
proof (induction cs arbitrary: w)
  case Nil
  then show ?case by simp
next
  case (Cons c cs)
  obtain r1 w1 where s: "process_channel_row fetch cwd trs c w = (r1, w1)"
    by (cases "process_channel_row fetch cwd trs c w") auto
  show ?case
  proof (cases r1)
    case Completed
    then have rest: "channel_loop fetch cwd trs cs w1 = (Raised err, w')"
      using Cons.prems s by simp
    obtain new where n: "events w' = events w1 @ new" "stopped fetch cwd (pairs cs trs) err new"
      "manifest_text cwd w' = manifest_text cwd w1 @ concat (fin_writes new)"
      using Cons.IH [OF rest] by blast
    have p: "list_all (fetch_ok fetch) (pairs_of_channel trs c)"
      "events w1 = events w @ channel_events fetch cwd trs c"
      "manifest_text cwd w1 = manifest_text cwd w
        @ concat (map (pair_line fetch cwd) (pairs_of_channel trs c))"
      using process_channel_row_Completed [of fetch cwd trs c w w1] s Completed by simp_all
    have d: "done_block fetch cwd (pairs_of_channel trs c) (channel_events fetch cwd trs c)"
      using p(1) by (rule done_block_channel)
    have "stopped fetch cwd (pairs_of_channel trs c @ pairs cs trs) err
        (channel_events fetch cwd trs c @ new)"
      using d n(2) by (rule stopped_after_done)
    moreover have "fin_writes (channel_events fetch cwd trs c)
        = map (pair_line fetch cwd) (pairs_of_channel trs c)"
      using d by (simp add: done_block_def)
    ultimately show ?thesis
      using n(1,3) p(2,3)
      by (intro exI [of _ "channel_events fetch cwd trs c @ new"])
         (simp add: fin_writes_simps pairs_Cons)
  next
    case (Raised e)
    then have eq: "e = err" "w1 = w'"
      using Cons.prems s by simp_all
    obtain new where n: "events w' = events w @ new"
      "stopped fetch cwd (pairs_of_channel trs c) err new"
      "manifest_text cwd w' = manifest_text cwd w @ concat (fin_writes new)"
      using process_channel_row_Raised [of fetch cwd trs c w err w'] s Raised eq by blast
    have "stopped fetch cwd (pairs_of_channel trs c @ pairs cs trs) err new"
      using n(2) by (rule stopped_extend)
    then show ?thesis
      using n by (intro exI [of _ new]) (simp add: pairs_Cons)
  qed
qed

text \<open>Opening and closing the manifest.\<close>

lemma open_append_ok:
  assumes "open_append cwd fin_file w = Inr w1"
  shows "events w1 = events w" and "fin_pending w1 = []"
    and "manifest_text cwd w1 = file_text (disk w) (abspath cwd fin_file)"
  using assms
  by (auto simp: open_append_def Let_def manifest_text_def file_text_def node_at_def
      split: option.splits node.splits if_splits)

lemma fin_close_result:
  "events (fin_close cwd w) = events w"
  "fin_pending (fin_close cwd w) = []"
  "file_text (disk (fin_close cwd w)) (abspath cwd fin_file) = manifest_text cwd w"
  by (simp_all add: fin_close_def fin_flush_def Let_def manifest_text_def file_text_def)

lemma fetchdat_Completed:
  assumes "fetchdat fetch cwd cs trs w = (Completed, w')"
  shows "list_all (fetch_ok fetch) (pairs cs trs)"
    and "events w' = events w @ run_events fetch cwd cs trs"
    and "fin_pending w' = []"
    and "file_text (disk w') (abspath cwd fin_file)
      = file_text (disk w) (abspath cwd fin_file) @ concat (map (pair_line fetch cwd) (pairs cs trs))"
proof -
  obtain w1 w2 where o: "open_append cwd fin_file w = Inr w1"
    and l: "channel_loop fetch cwd trs cs w1 = (Completed, w2)"
    and c: "w' = fin_close cwd w2"
    using assms by (auto simp: fetchdat_def split: sum.splits prod.splits)
  note r = channel_loop_Completed [OF l]
  show "list_all (fetch_ok fetch) (pairs cs trs)"
    using r by simp
  show "events w' = events w @ run_events fetch cwd cs trs"
    using r c open_append_ok(1) [OF o] by (simp add: fin_close_result)
  show "fin_pending w' = []"
    using c by (simp add: fin_close_result)
  show "file_text (disk w') (abspath cwd fin_file)
      = file_text (disk w) (abspath cwd fin_file) @ concat (map (pair_line fetch cwd) (pairs cs trs))"
    using r c open_append_ok(3) [OF o] by (simp add: fin_close_result)
qed

lemma fetchdat_Raised:
  assumes "fetchdat fetch cwd cs trs w = (Raised err, w')"
  shows "w' = w \<or>
    (\<exists>new. events w' = events w @ new \<and> stopped fetch cwd (pairs cs trs) err new \<and>
       fin_pending w' = [] \<and>
       file_text (disk w') (abspath cwd fin_file)
         = file_text (disk w) (abspath cwd fin_file) @ concat (fin_writes new))"
proof (cases "open_append cwd fin_file w")
  case (Inl e)
  then show ?thesis
    using assms by (simp add: fetchdat_def)
next
  case (Inr w1)
  then obtain w2 where l: "channel_loop fetch cwd trs cs w1 = (Raised err, w2)"
    and c: "w' = fin_close cwd w2"
    using assms by (auto simp: fetchdat_def split: prod.splits)
  obtain new where n: "events w2 = events w1 @ new" "stopped fetch cwd (pairs cs trs) err new"
    "manifest_text cwd w2 = manifest_text cwd w1 @ concat (fin_writes new)"
    using channel_loop_Raised [OF l] by blast
  have "events w' = events w @ new \<and> stopped fetch cwd (pairs cs trs) err new \<and>
       fin_pending w' = [] \<and>
       file_text (disk w') (abspath cwd fin_file)
         = file_text (disk w) (abspath cwd fin_file) @ concat (fin_writes new)"
    using n c open_append_ok [OF Inr] by (simp add: fin_close_result)
  then show ?thesis by blast
qed

definition sample_world :: world where
  "sample_world = \<lparr>disk = [''/w'' \<mapsto> Dir], fin_pending = [], events = []\<rparr>"

definition two_channels :: "channel_row list" where
  "two_channels = [\<lparr>channel = ''H1:A'', sampling_rate = 16\<rparr>, \<lparr>channel = ''L1:B'', sampling_rate = 256\<rparr>]"

definition three_ranges :: "time_row list" where
  "three_ranges = [\<lparr>row_start = 1, row_end = 2\<rparr>, \<lparr>row_start = 2, row_end = 3\<rparr>,
     \<lparr>row_start = 3, row_end = 4\<rparr>]"

definition steady_fetch :: fetcher where
  "steady_fetch c s e h = Inr \<lparr>payload = ''x'', t0 = PyInt s, dt = PyObject ''0.0625''\<rparr>"

definition failing_fetch :: fetcher where
  "failing_fetch c s e h = Inl (OtherException ''unreachable'')"

lemmas driver_eval = run_eval process_channel_row_def fetchdat_def open_append_def fin_close_def
  file_text_def fin_file_def sample_world_def two_channels_def three_ranges_def
  steady_fetch_def failing_fetch_def

lemma sample_run_completed:
  "fst (fetchdat steady_fetch ''/w'' two_channels three_ranges sample_world) = Completed"
  by (simp add: driver_eval)

lemma failing_run:
  "fst (fetchdat failing_fetch ''/w'' two_channels three_ranges sample_world)
     = Raised (OtherException ''unreachable'') \<and>
   events (snd (fetchdat failing_fetch ''/w'' two_channels three_ranges sample_world))
     = [Makedirs ''H1_A'', Fetch ''H1:A'' 1 2 ''nds.gwosc.org'']"
  by (simp add: driver_eval)

lemma new_events_from: "events w' = events w @ new \<Longrightarrow> new_events w w' = new"
  by (simp add: new_events_def)

lemma length_pairs: "length (pairs cs trs) = length cs * length trs"
  by (induction cs) (simp_all add: pairs_def pairs_of_channel_def)

lemma pairs_nth:
  "i < length cs \<Longrightarrow> j < length trs \<Longrightarrow>
   pairs cs trs ! (i * length trs + j) = (channel (cs ! i), row_start (trs ! j), row_end (trs ! j))"
proof (induction cs arbitrary: i)
  case Nil
  then show ?case by simp
next
  case (Cons c cs)
  have l: "length (pairs_of_channel trs c) = length trs"
    by (simp add: pairs_of_channel_def)
  show ?case
  proof (cases i)
    case 0
    then show ?thesis
      using Cons.prems(2) l by (simp add: pairs_Cons nth_append pairs_of_channel_def)
  next
    case (Suc k)
    then have "k < length cs"
      using Cons.prems(1) by simp
    then have "pairs cs trs ! (k * length trs + j)
        = (channel (cs ! k), row_start (trs ! j), row_end (trs ! j))"
      using Cons.IH Cons.prems(2) by blast
    then show ?thesis
      using Suc l by (simp add: pairs_Cons nth_append)
  qed
qed

lemma run_events_done:
  "list_all (fetch_ok fetch) (pairs cs trs) \<Longrightarrow>
   done_block fetch cwd (pairs cs trs) (run_events fetch cwd cs trs)"
proof (induction cs)
  case Nil
  show ?case by (simp add: pairs_def run_events_def done_block_Nil)
next
  case (Cons c cs)
  have "done_block fetch cwd (pairs_of_channel trs c @ pairs cs trs)
      (channel_events fetch cwd trs c @ run_events fetch cwd cs trs)"
    using Cons by (intro done_block_append done_block_channel) (simp_all add: pairs_Cons)
  then show ?case
    by (simp add: pairs_Cons run_events_def)
qed

lemma stopped_prefix:
  "stopped fetch cwd ps err new \<Longrightarrow> \<exists>rest. ps = fetch_calls new @ rest"
  unfolding stopped_def how_stopped_def by auto

text \<open>
  C3 (as amended). The fetch calls of a run are always an initial part of the cross
  product of channels and time ranges taken in row-major order, channel outer and time
  range inner, in the order of the two tables; a run that ends without an exception makes
  exactly one call per pair, \<open>C \<times> R\<close> in all. (A run that an exception ends stops
  there and makes no further call.)
\<close>

theorem fetch_attempts_row_major:
  assumes "fetchdat fetch cwd channels time_ranges w = (r, w')"
  shows "(\<exists>rest. pairs channels time_ranges = fetch_calls (new_events w w') @ rest) \<and>
    (r = Completed \<longrightarrow>
       fetch_calls (new_events w w') = pairs channels time_ranges \<and>
       length (fetch_calls (new_events w w')) = length channels * length time_ranges) \<and>
    (\<forall>i j. i < length channels \<and> j < length time_ranges \<longrightarrow>
       pairs channels time_ranges ! (i * length time_ranges + j)
         = (channel (channels ! i), row_start (time_ranges ! j), row_end (time_ranges ! j)))"
proof (intro conjI)
  show "\<exists>rest. pairs channels time_ranges = fetch_calls (new_events w w') @ rest"
  proof (cases r)
    case Completed
    then have c: "fetchdat fetch cwd channels time_ranges w = (Completed, w')"
      using assms by simp
    have "new_events w w' = run_events fetch cwd channels time_ranges"
      using fetchdat_Completed(2) [OF c] by (rule new_events_from)
    then have "fetch_calls (new_events w w') = pairs channels time_ranges"
      using run_events_done [OF fetchdat_Completed(1) [OF c], of cwd] by (simp add: done_block_def)
    then show ?thesis by simp
  next
    case (Raised err)
    then have c: "fetchdat fetch cwd channels time_ranges w = (Raised err, w')"
      using assms by simp
    consider (same) "w' = w"
      | (ran) new where "events w' = events w @ new" "stopped fetch cwd (pairs channels time_ranges) err new"
      using fetchdat_Raised [OF c] by blast
    then show ?thesis
    proof cases
      case same
      then show ?thesis
        by (simp add: new_events_def fetch_calls_simps)
    next
      case ran
      then show ?thesis
        using stopped_prefix [OF ran(2)] new_events_from [OF ran(1)] by simp
    qed
  qed
  show "r = Completed \<longrightarrow>
       fetch_calls (new_events w w') = pairs channels time_ranges \<and>
       length (fetch_calls (new_events w w')) = length channels * length time_ranges"
  proof
    assume "r = Completed"
    then have c: "fetchdat fetch cwd channels time_ranges w = (Completed, w')"
      using assms by simp
    have "new_events w w' = run_events fetch cwd channels time_ranges"
      using fetchdat_Completed(2) [OF c] by (rule new_events_from)
    then have "fetch_calls (new_events w w') = pairs channels time_ranges"
      using run_events_done [OF fetchdat_Completed(1) [OF c], of cwd] by (simp add: done_block_def)
    then show "fetch_calls (new_events w w') = pairs channels time_ranges \<and>
       length (fetch_calls (new_events w w')) = length channels * length time_ranges"
      by (simp add: length_pairs)
  qed
  show "\<forall>i j. i < length channels \<and> j < length time_ranges \<longrightarrow>
       pairs channels time_ranges ! (i * length time_ranges + j)
         = (channel (channels ! i), row_start (time_ranges ! j), row_end (time_ranges ! j))"
    using pairs_nth by blast
qed

theorem fetch_attempts_row_major_witness:
  "fst (fetchdat steady_fetch ''/w'' two_channels three_ranges sample_world) = Completed \<and>
   fetch_calls (new_events sample_world
      (snd (fetchdat steady_fetch ''/w'' two_channels three_ranges sample_world)))
     = [(''H1:A'', 1, 2), (''H1:A'', 2, 3), (''H1:A'', 3, 4),
        (''L1:B'', 1, 2), (''L1:B'', 2, 3), (''L1:B'', 3, 4)]"
proof -
  let ?r = "fetchdat steady_fetch ''/w'' two_channels three_ranges sample_world"
  have h: "?r = (Completed, snd ?r)"
    using sample_run_completed by (metis prod.collapse)
  have "fetch_calls (new_events sample_world (snd ?r)) = pairs two_channels three_ranges"
    using fetch_attempts_row_major [OF h] by blast
  then show ?thesis
    using sample_run_completed
    by (simp add: pairs_def pairs_of_channel_def two_channels_def three_ranges_def)
qed

theorem six_pairs_one_fetch_attempt:
  "length (pairs two_channels three_ranges) = 6 \<and>
   length (fetch_calls (new_events sample_world
      (snd (fetchdat failing_fetch ''/w'' two_channels three_ranges sample_world)))) = 1"
  using failing_run
  by (simp add: new_events_def sample_world_def fetch_calls_simps length_pairs
      two_channels_def three_ranges_def)

definition second_channel_unknown :: fetcher where
  "second_channel_unknown c s e h =
     (if c = ''L1:B'' then Inl (OtherException ''unknown channel'') else steady_fetch c s e h)"

lemma fetch_ok_not_raises: "fetch_ok fetch p \<Longrightarrow> \<not> fetch_raises fetch p err"
  by (auto simp: fetch_ok_def fetch_raises_def split: prod.splits sum.splits)

lemma fetch_raises_same: "fetch_raises fetch p err \<Longrightarrow> fetch_raises fetch p err' \<Longrightarrow> err' = err"
  by (auto simp: fetch_raises_def split: prod.splits)

text \<open>The pairs fetched before a stop lie before the first pair whose fetch raises.\<close>

lemma first_failure_split:
  assumes "before @ p # after = before' @ after'"
    and "list_all (fetch_ok fetch) before'"
    and "fetch_raises fetch p err"
  shows "\<exists>x. before = before' @ x \<and> after' = x @ p # after"
proof -
  consider (left) us where "before = before' @ us" "us @ p # after = after'"
    | (right) us where "before @ us = before'" "p # after = us @ after'"
    using assms(1) by (auto simp: append_eq_append_conv2)
  then show ?thesis
  proof cases
    case left
    then show ?thesis by auto
  next
    case right
    show ?thesis
    proof (cases us)
      case Nil
      then show ?thesis
        using right by auto
    next
      case (Cons u us')
      then have "p \<in> set before'"
        using right by auto
      then have "fetch_ok fetch p"
        using assms(2) by (simp add: list_all_iff)
      then show ?thesis
        using assms(3) fetch_ok_not_raises by blast
    qed
  qed
qed

lemma stopped_before_failure:
  assumes s: "stopped fetch cwd (before @ p # after) err' new"
    and bad: "fetch_raises fetch p err"
  shows "(\<exists>rest. before @ [p] = fetch_calls new @ rest) \<and>
    (\<exists>rest. map pair_file before = written_paths new @ rest) \<and>
    (\<exists>rest. map (pair_line fetch cwd) before = fin_writes new @ rest) \<and>
    (fetch_calls new = before @ [p] \<longrightarrow>
       err' = err \<and> is_fetch (last new) \<and> list_all (fetch_ok fetch) before \<and>
       written_paths new = map pair_file before \<and>
       fin_writes new = map (pair_line fetch cwd) before)"
proof -
  obtain before' after' where b: "before @ p # after = before' @ after'"
    "list_all (fetch_ok fetch) before'"
    "fin_writes new = map (pair_line fetch cwd) before'"
    "how_stopped fetch err' before' after' (fetch_calls new) (written_paths new)
       (is_fetch (last new))"
    using s unfolding stopped_def by blast
  obtain x where x: "before = before' @ x" "after' = x @ p # after"
    using first_failure_split [OF b(1) b(2) bad] by blast
  have fw: "\<exists>rest. map (pair_line fetch cwd) before = fin_writes new @ rest"
    using b(3) x(1) by simp
  consider (dir) "fetch_calls new = before'" "written_paths new = map pair_file before'"
      "\<not> is_fetch (last new)"
    | (raised) q rest where "after' = q # rest" "fetch_calls new = before' @ [q]"
      "fetch_raises fetch q err'" "written_paths new = map pair_file before'"
      "is_fetch (last new)"
    | (saved) q rest where "after' = q # rest" "fetch_calls new = before' @ [q]"
      "fetch_ok fetch q" "\<not> is_fetch (last new)"
      "written_paths new = map pair_file before'
         \<or> written_paths new = map pair_file before' @ [pair_file q]"
    using b(4) unfolding how_stopped_def by blast
  then show ?thesis
  proof cases
    case dir
    have "fetch_calls new \<noteq> before @ [p]"
      using dir(1) x(1) by auto
    then show ?thesis
      using dir x(1) fw by auto
  next
    case raised
    show ?thesis
    proof (cases x)
      case Nil
      then have q: "q = p" "before' = before"
        using raised(1) x by auto
      have "err' = err"
        using raised(3) bad q fetch_raises_same by blast
      then show ?thesis
        using raised q b(2,3) by auto
    next
      case (Cons y ys)
      then have q: "q = y" "before = before' @ y # ys"
        using raised(1) x by auto
      have "fetch_calls new \<noteq> before @ [p]"
        using raised(2) q by auto
      then show ?thesis
        using raised q fw by auto
    qed
  next
    case saved
    show ?thesis
    proof (cases x)
      case Nil
      then have "q = p"
        using saved(1) x by auto
      then show ?thesis
        using saved(3) bad fetch_ok_not_raises by blast
    next
      case (Cons y ys)
      then have q: "q = y" "before = before' @ y # ys"
        using saved(1) x by auto
      have "fetch_calls new \<noteq> before @ [p]"
        using saved(2) q by auto
      then show ?thesis
        using saved q fw by auto
    qed
  qed
qed

text \<open>
  C9. Let the fetch of the pair \<open>p\<close> raise \<open>err\<close>, with the pairs \<open>before\<close> ahead
  of it in the order of the loops and \<open>after\<close> behind it. Then no run completes; no run
  calls fetch for a pair after \<open>p\<close>, writes a file or appends a manifest line for
  \<open>p\<close> or a later pair; and a run that gets as far as calling fetch for \<open>p\<close> ends
  there with \<open>err\<close>: that call is its last event, the pairs before it were all fetched,
  written and recorded, and when the \<^verbatim>\<open>with\<close> block has closed the manifest the file
  holds what it held at the start followed by exactly their lines, nothing being left in
  the buffer. The loop body itself, entered for \<open>p\<close>, raises at once and the rows
  behind it are not processed.
\<close>

theorem fetch_failure_ends_batch:
  assumes "pairs channels time_ranges = before @ p # after"
    and "fetch_raises fetch p err"
    and "fetchdat fetch cwd channels time_ranges w = (r, w')"
  shows "r \<noteq> Completed \<and>
    (\<exists>rest. before @ [p] = fetch_calls (new_events w w') @ rest) \<and>
    (\<exists>rest. map pair_file before = written_paths (new_events w w') @ rest) \<and>
    (\<exists>rest. map (pair_line fetch cwd) before = fin_writes (new_events w w') @ rest) \<and>
    file_text (disk w') (abspath cwd fin_file)
      = file_text (disk w) (abspath cwd fin_file) @ concat (fin_writes (new_events w w')) \<and>
    (fetch_calls (new_events w w') = before @ [p] \<longrightarrow>
       r = Raised err \<and> is_fetch (last (new_events w w')) \<and>
       list_all (fetch_ok fetch) before \<and>
       written_paths (new_events w w') = map pair_file before \<and>
       fin_writes (new_events w w') = map (pair_line fetch cwd) before \<and>
       fin_pending w' = [] \<and>
       file_text (disk w') (abspath cwd fin_file)
         = file_text (disk w) (abspath cwd fin_file)
             @ concat (map (pair_line fetch cwd) before)) \<and>
    (\<forall>cd tr rest v. p = (c, row_start tr, row_end tr) \<longrightarrow>
       time_loop fetch cwd c cd (tr # rest) v
         = (Raised err, record_event (Fetch c (row_start tr) (row_end tr) nds_host) v))"
proof -
  have nc: "r \<noteq> Completed"
  proof
    assume "r = Completed"
    then have "list_all (fetch_ok fetch) (pairs channels time_ranges)"
      using fetchdat_Completed(1) assms(3) by blast
    then have "fetch_ok fetch p"
      using assms(1) by (simp add: list_all_iff)
    then show False
      using assms(2) fetch_ok_not_raises by blast
  qed
  then obtain err' where r: "r = Raised err'"
    by (cases r) auto
  have body: "\<forall>cd tr rest v. p = (c, row_start tr, row_end tr) \<longrightarrow>
       time_loop fetch cwd c cd (tr # rest) v
         = (Raised err, record_event (Fetch c (row_start tr) (row_end tr) nds_host) v)"
    using assms(2) by (auto simp: fetch_raises_def process_time_row_def Let_def)
  consider (closed) "w' = w"
    | (ran) new where "events w' = events w @ new"
      "stopped fetch cwd (pairs channels time_ranges) err' new" "fin_pending w' = []"
      "file_text (disk w') (abspath cwd fin_file)
         = file_text (disk w) (abspath cwd fin_file) @ concat (fin_writes new)"
    using fetchdat_Raised assms(3) r by blast
  then show ?thesis
  proof cases
    case closed
    then have "new_events w w' = []"
      by (simp add: new_events_def)
    then show ?thesis
      using nc body closed by (simp add: fetch_calls_simps written_paths_simps fin_writes_simps)
  next
    case ran
    have ne: "new_events w w' = new"
      using ran(1) by (rule new_events_from)
    have s: "stopped fetch cwd (before @ p # after) err' new"
      using ran(2) assms(1) by simp
    note f = stopped_before_failure [OF s assms(2)]
    have "fetch_calls new = before @ [p] \<longrightarrow>
       r = Raised err \<and> is_fetch (last new) \<and> list_all (fetch_ok fetch) before \<and>
       written_paths new = map pair_file before \<and>
       fin_writes new = map (pair_line fetch cwd) before \<and>
       fin_pending w' = [] \<and>
       file_text (disk w') (abspath cwd fin_file)
         = file_text (disk w) (abspath cwd fin_file)
             @ concat (map (pair_line fetch cwd) before)"
      using f r ran(3,4) by auto
    then show ?thesis
      unfolding ne using nc body f ran(4) by blast
  qed
qed

lemma unknown_channel_run:
  "fetch_calls (events (snd (fetchdat second_channel_unknown ''/w'' two_channels three_ranges
      sample_world)))
     = [(''H1:A'', 1, 2), (''H1:A'', 2, 3), (''H1:A'', 3, 4), (''L1:B'', 1, 2)]"
  by (simp add: driver_eval second_channel_unknown_def fetch_calls_simps)

theorem fetch_failure_ends_batch_witness:
  "fst (fetchdat second_channel_unknown ''/w'' two_channels three_ranges sample_world)
     = Raised (OtherException ''unknown channel'') \<and>
   written_paths (new_events sample_world
      (snd (fetchdat second_channel_unknown ''/w'' two_channels three_ranges sample_world)))
     = map pair_file [(''H1:A'', 1, 2), (''H1:A'', 2, 3), (''H1:A'', 3, 4)] \<and>
   file_text (disk (snd (fetchdat second_channel_unknown ''/w'' two_channels three_ranges
       sample_world))) (abspath ''/w'' fin_file)
     = file_text (disk sample_world) (abspath ''/w'' fin_file)
         @ concat (map (pair_line second_channel_unknown ''/w'')
             [(''H1:A'', 1, 2), (''H1:A'', 2, 3), (''H1:A'', 3, 4)])"
proof -
  let ?r = "fetchdat second_channel_unknown ''/w'' two_channels three_ranges sample_world"
  let ?before = "[(''H1:A'', 1, 2), (''H1:A'', 2, 3), (''H1:A'', 3, 4)] :: pair list"
  let ?p = "(''L1:B'', 1, 2) :: pair"
  let ?after = "[(''L1:B'', 2, 3), (''L1:B'', 3, 4)] :: pair list"
  have sp: "pairs two_channels three_ranges = ?before @ ?p # ?after"
    by (simp add: pairs_def pairs_of_channel_def two_channels_def three_ranges_def)
  have bad: "fetch_raises second_channel_unknown ?p (OtherException ''unknown channel'')"
    by (simp add: fetch_raises_def second_channel_unknown_def)
  have run: "?r = (fst ?r, snd ?r)"
    by simp
  have n: "new_events sample_world (snd ?r) = events (snd ?r)"
    by (simp add: new_events_def sample_world_def)
  have reached: "fetch_calls (new_events sample_world (snd ?r)) = ?before @ [?p]"
    unfolding n using unknown_channel_run by simp
  show ?thesis
    using fetch_failure_ends_batch [OF sp bad run] reached by simp
qed

definition get_calls :: "event list \<Rightarrow> string list" where
  "get_calls es = concat (map (\<lambda>ev. case ev of Get u \<Rightarrow> [u] | _ \<Rightarrow> []) es)"

definition printed :: "event list \<Rightarrow> string list" where
  "printed es = concat (map (\<lambda>ev. case ev of Printed t \<Rightarrow> [t] | _ \<Rightarrow> []) es)"

text \<open>The contents \<^verbatim>\<open>rp.get\<close> delivers for a list of URLs, in order, the failed ones left out.\<close>

definition downloaded :: "getter \<Rightarrow> string list \<Rightarrow> string list" where
  "downloaded rp_get urls = concat (map (\<lambda>u. case rp_get u of Inl _ \<Rightarrow> [] | Inr c \<Rightarrow> [c]) urls)"

text \<open>Whether \<open>path\<close> can be opened for writing on the disk \<open>d\<close>.\<close>

definition can_write :: "string \<Rightarrow> string \<Rightarrow> filesystem \<Rightarrow> bool" where
  "can_write cwd path d = (case write_file cwd path [] d of Inl _ \<Rightarrow> False | Inr _ \<Rightarrow> True)"

lemma write_file_can_write:
  "write_file cwd path content d =
     (if can_write cwd path d then Inr (d(abspath cwd path \<mapsto> File content))
      else write_file cwd path content d)"
  by (auto simp: can_write_def write_file_def Let_def split: option.splits node.splits)

lemma write_file_cannot:
  "\<not> can_write cwd path d \<Longrightarrow> \<exists>err. write_file cwd path content d = Inl err"
  by (auto simp: can_write_def write_file_def Let_def split: option.splits node.splits if_splits)

lemma can_write_after:
  "can_write cwd path d \<Longrightarrow> can_write cwd path (d(abspath cwd path \<mapsto> File content))"
  by (auto simp: can_write_def write_file_def Let_def node_at_def split: option.splits node.splits if_splits)

lemma filepath_literal:
  "filepath_of s e = osdf_channel_name @ ''/'' @ str_int s @ ''_'' @ str_int e @ ''/''
     @ osdf_channel_name @ ''_'' @ str_int s @ ''_'' @ str_int e @ ''.gwf''"
proof -
  have "last (base_dir_of s e) = last (str_int e)"
    using str_int_nonempty [of e] by (simp add: base_dir_of_def)
  moreover have "last (str_int e) \<in> set (str_int e)"
    using str_int_nonempty [of e] by simp
  ultimately have "last (base_dir_of s e) \<noteq> sep"
    using sep_notin_str_int [of e] by auto
  moreover have "base_dir_of s e \<noteq> []"
    by (simp add: base_dir_of_def osdf_channel_name_def)
  ultimately have "\<not> endswith_sep (base_dir_of s e)"
    by (simp add: endswith_sep_iff)
  moreover have "\<not> startswith_sep (filename_of s e)"
    by (simp add: filename_of_def osdf_channel_name_def startswith_sep_def sep_def)
  ultimately show ?thesis
    by (simp add: filepath_of_def path_join_def base_dir_of_def filename_of_def sep_def)
qed

text \<open>One URL: what it does to the events and to the disk.\<close>

lemma process_url_cases:
  "(\<exists>err. rp_get url = Inl err \<and>
      process_url rp_get cwd s e url w =
        record_event (Printed (''Failed to download '' @ url @ '': '' @ str_error err))
          (record_event (Get url) (record_event (Printed (''Downloading: '' @ url)) w)))
   \<or> (\<exists>content err. rp_get url = Inr content \<and>
        write_file cwd (filepath_of s e) content (disk w) = Inl err \<and>
        process_url rp_get cwd s e url w =
          record_event (Printed (''Failed to download '' @ url @ '': '' @ str_error err))
            (record_event (WriteFile (filepath_of s e))
              (record_event (Get url) (record_event (Printed (''Downloading: '' @ url)) w))))
   \<or> (\<exists>content d. rp_get url = Inr content \<and>
        write_file cwd (filepath_of s e) content (disk w) = Inr d \<and>
        process_url rp_get cwd s e url w =
          record_event (Sleep timeout_duration)
            (record_event (Printed (''Waiting for '' @ str_int (int timeout_duration)
                 @ '' seconds before the next download...''))
              (record_event (Printed (''Saved: '' @ filepath_of s e))
                ((record_event (WriteFile (filepath_of s e))
                    (record_event (Get url) (record_event (Printed (''Downloading: '' @ url)) w)))
                 \<lparr>disk := d\<rparr>))))"
proof (cases "rp_get url")
  case (Inl err)
  then show ?thesis
    by (simp add: process_url_def download_one_def Let_def)
next
  case (Inr content)
  show ?thesis
  proof (cases "write_file cwd (filepath_of s e) content (disk w)")
    case (Inl err)
    then show ?thesis
      using Inr by (simp add: process_url_def download_one_def Let_def disk_record_event)
  next
    case wr: (Inr d)
    then show ?thesis
      using Inr by (simp add: process_url_def download_one_def Let_def disk_record_event)
  qed
qed

lemma get_calls_simps:
  "get_calls [] = []"
  "get_calls (Get u # es) = u # get_calls es"
  "get_calls (Printed t # es) = get_calls es"
  "get_calls (WriteFile t # es) = get_calls es"
  "get_calls (Sleep n # es) = get_calls es"
  "get_calls (Makedirs t # es) = get_calls es"
  "get_calls (FindUrls a b c d f g # es) = get_calls es"
  "get_calls (xs @ ys) = get_calls xs @ get_calls ys"
  by (simp_all add: get_calls_def)

lemma written_paths_more:
  "written_paths (Get u # es) = written_paths es"
  "written_paths (Sleep n # es) = written_paths es"
  "written_paths (FindUrls a b c d f g # es) = written_paths es"
  by (simp_all add: written_paths_def)

lemma made_dirs_more:
  "made_dirs (Get u # es) = made_dirs es"
  "made_dirs (Sleep n # es) = made_dirs es"
  "made_dirs (FindUrls a b c d f g # es) = made_dirs es"
  by (simp_all add: made_dirs_def)

lemma printed_simps:
  "printed [] = []"
  "printed (Printed t # es) = t # printed es"
  "printed (Get u # es) = printed es"
  "printed (WriteFile p # es) = printed es"
  "printed (Sleep n # es) = printed es"
  "printed (Makedirs p # es) = printed es"
  "printed (FindUrls a b c d f g # es) = printed es"
  "printed (xs @ ys) = printed xs @ printed ys"
  by (simp_all add: printed_def)

lemma process_url_obs:
  "\<exists>new. events (process_url rp_get cwd s e url w) = events w @ new \<and>
     get_calls new = [url] \<and>
     set (written_paths new) \<subseteq> {filepath_of s e} \<and>
     made_dirs new = [] \<and>
     ''Downloading: '' @ url \<in> set (printed new) \<and>
     (\<forall>err. rp_get url = Inl err \<longrightarrow>
        ''Failed to download '' @ url @ '': '' @ str_error err \<in> set (printed new)) \<and>
     (\<forall>content err. rp_get url = Inr content \<and>
          write_file cwd (filepath_of s e) content (disk w) = Inl err \<longrightarrow>
        ''Failed to download '' @ url @ '': '' @ str_error err \<in> set (printed new))"
  using process_url_cases [of rp_get url cwd s e w]
  by (elim disjE exE conjE)
     (simp_all add: events_record_event get_calls_simps written_paths_simps written_paths_more
        made_dirs_simps made_dirs_more printed_simps)

lemma process_url_disk:
  "disk (process_url rp_get cwd s e url w) =
     (case rp_get url of
        Inl _ \<Rightarrow> disk w
      | Inr content \<Rightarrow>
          if can_write cwd (filepath_of s e) (disk w)
          then (disk w)(abspath cwd (filepath_of s e) \<mapsto> File content)
          else disk w)"
proof (cases "rp_get url")
  case (Inl err)
  then show ?thesis
    by (simp add: process_url_def download_one_def Let_def disk_record_event)
next
  case (Inr content)
  show ?thesis
  proof (cases "can_write cwd (filepath_of s e) (disk w)")
    case True
    then have "write_file cwd (filepath_of s e) content (disk w)
        = Inr ((disk w)(abspath cwd (filepath_of s e) \<mapsto> File content))"
      using write_file_can_write [of cwd "filepath_of s e" content "disk w"] by simp
    then show ?thesis
      using Inr True by (simp add: process_url_def download_one_def Let_def disk_record_event)
  next
    case False
    then obtain err where "write_file cwd (filepath_of s e) content (disk w) = Inl err"
      using write_file_cannot by blast
    then show ?thesis
      using Inr False by (simp add: process_url_def download_one_def Let_def disk_record_event)
  qed
qed

lemma downloaded_Cons:
  "downloaded rp_get (u # urls) =
     (case rp_get u of Inl _ \<Rightarrow> [] | Inr c \<Rightarrow> [c]) @ downloaded rp_get urls"
  by (simp add: downloaded_def)

lemma url_loop_disk:
  "disk (url_loop rp_get cwd s e urls w) =
     (if can_write cwd (filepath_of s e) (disk w) \<and> downloaded rp_get urls \<noteq> []
      then (disk w)(abspath cwd (filepath_of s e) \<mapsto> File (last (downloaded rp_get urls)))
      else disk w)"
proof (induction urls arbitrary: w)
  case Nil
  show ?case by (simp add: downloaded_def)
next
  case (Cons u urls)
  let ?w1 = "process_url rp_get cwd s e u w"
  let ?fp = "filepath_of s e"
  note ih = Cons.IH [of ?w1]
  show ?case
  proof (cases "rp_get u")
    case (Inl err)
    then have "disk ?w1 = disk w"
      by (simp add: process_url_disk)
    then show ?thesis
      using ih Inl by (simp add: downloaded_Cons)
  next
    case (Inr content)
    show ?thesis
    proof (cases "can_write cwd ?fp (disk w)")
      case True
      then have d1: "disk ?w1 = (disk w)(abspath cwd ?fp \<mapsto> File content)"
        using Inr by (simp add: process_url_disk)
      have c1: "can_write cwd ?fp (disk ?w1)"
        unfolding d1 using True by (rule can_write_after)
      have ih': "disk (url_loop rp_get cwd s e urls ?w1) =
          (if downloaded rp_get urls \<noteq> []
           then (disk ?w1)(abspath cwd ?fp \<mapsto> File (last (downloaded rp_get urls)))
           else disk ?w1)"
        using ih c1 by simp
      have dl: "downloaded rp_get (u # urls) = content # downloaded rp_get urls"
        using Inr by (simp add: downloaded_Cons)
      show ?thesis
      proof (cases "downloaded rp_get urls = []")
        case e: True
        have "disk (url_loop rp_get cwd s e (u # urls) w) = disk ?w1"
          using ih' e by simp
        also have "\<dots> = (disk w)(abspath cwd ?fp \<mapsto> File (last (downloaded rp_get (u # urls))))"
          unfolding d1 dl using e by simp
        finally show ?thesis
          using True dl by simp
      next
        case ne: False
        have "disk (url_loop rp_get cwd s e (u # urls) w)
            = (disk ?w1)(abspath cwd ?fp \<mapsto> File (last (downloaded rp_get urls)))"
          using ih' ne by simp
        also have "\<dots> = (disk w)(abspath cwd ?fp \<mapsto> File (last (downloaded rp_get urls)))"
          unfolding d1 by (rule fun_upd_upd)
        also have "last (downloaded rp_get urls) = last (downloaded rp_get (u # urls))"
          unfolding dl using ne by simp
        finally show ?thesis
          using True dl by simp
      qed
    next
      case False
      then have "disk ?w1 = disk w"
        using Inr by (simp add: process_url_disk)
      then show ?thesis
        using ih False by simp
    qed
  qed
qed

lemma url_loop_obs:
  "\<exists>new. events (url_loop rp_get cwd s e urls w) = events w @ new \<and>
     get_calls new = urls \<and>
     set (written_paths new) \<subseteq> {filepath_of s e} \<and>
     made_dirs new = [] \<and>
     (\<forall>u\<in>set urls. ''Downloading: '' @ u \<in> set (printed new)) \<and>
     (\<forall>u\<in>set urls. \<forall>err. rp_get u = Inl err \<longrightarrow>
        ''Failed to download '' @ u @ '': '' @ str_error err \<in> set (printed new)) \<and>
     (\<forall>u\<in>set urls. \<forall>content err. rp_get u = Inr content \<and>
          write_file cwd (filepath_of s e) content (disk w) = Inl err \<longrightarrow>
        ''Failed to download '' @ u @ '': '' @ str_error err \<in> set (printed new))"
proof (induction urls arbitrary: w)
  case Nil
  show ?case
    by (simp add: get_calls_simps written_paths_simps made_dirs_simps)
next
  case (Cons u urls)
  let ?w1 = "process_url rp_get cwd s e u w"
  let ?fp = "filepath_of s e"
  obtain n1 where n1: "events ?w1 = events w @ n1" "get_calls n1 = [u]"
    "set (written_paths n1) \<subseteq> {?fp}" "made_dirs n1 = []"
    "''Downloading: '' @ u \<in> set (printed n1)"
    "\<forall>err. rp_get u = Inl err \<longrightarrow>
        ''Failed to download '' @ u @ '': '' @ str_error err \<in> set (printed n1)"
    "\<forall>content err. rp_get u = Inr content \<and> write_file cwd ?fp content (disk w) = Inl err \<longrightarrow>
        ''Failed to download '' @ u @ '': '' @ str_error err \<in> set (printed n1)"
    using process_url_obs [of rp_get cwd s e u w] by blast
  obtain n2 where n2: "events (url_loop rp_get cwd s e urls ?w1) = events ?w1 @ n2"
    "get_calls n2 = urls" "set (written_paths n2) \<subseteq> {?fp}" "made_dirs n2 = []"
    "\<forall>u\<in>set urls. ''Downloading: '' @ u \<in> set (printed n2)"
    "\<forall>u\<in>set urls. \<forall>err. rp_get u = Inl err \<longrightarrow>
        ''Failed to download '' @ u @ '': '' @ str_error err \<in> set (printed n2)"
    "\<forall>u\<in>set urls. \<forall>content err. rp_get u = Inr content \<and>
          write_file cwd ?fp content (disk ?w1) = Inl err \<longrightarrow>
        ''Failed to download '' @ u @ '': '' @ str_error err \<in> set (printed n2)"
    using Cons.IH [of ?w1] by blast
  have keep: "write_file cwd ?fp content (disk ?w1) = Inl err"
    if "write_file cwd ?fp content (disk w) = Inl err" for content err
  proof -
    have "\<not> can_write cwd ?fp (disk w)"
      using that write_file_can_write [of cwd ?fp content "disk w"] by auto
    then have "disk ?w1 = disk w"
      by (simp add: process_url_disk split: sum.splits)
    then show ?thesis
      using that by simp
  qed
  have "events (url_loop rp_get cwd s e (u # urls) w) = events w @ (n1 @ n2)"
    using n1(1) n2(1) by simp
  moreover have "get_calls (n1 @ n2) = u # urls"
    using n1(2) n2(2) by (simp add: get_calls_simps)
  moreover have "set (written_paths (n1 @ n2)) \<subseteq> {?fp}"
    using n1(3) n2(3) by (simp add: written_paths_simps)
  moreover have "made_dirs (n1 @ n2) = []"
    using n1(4) n2(4) by (simp add: made_dirs_simps)
  moreover have "\<forall>v\<in>set (u # urls). ''Downloading: '' @ v \<in> set (printed (n1 @ n2))"
    using n1(5) n2(5) by (auto simp: printed_simps)
  moreover have "\<forall>v\<in>set (u # urls). \<forall>err. rp_get v = Inl err \<longrightarrow>
        ''Failed to download '' @ v @ '': '' @ str_error err \<in> set (printed (n1 @ n2))"
    using n1(6) n2(6) by (auto simp: printed_simps)
  moreover have "\<forall>v\<in>set (u # urls). \<forall>content err. rp_get v = Inr content \<and>
          write_file cwd ?fp content (disk w) = Inl err \<longrightarrow>
        ''Failed to download '' @ v @ '': '' @ str_error err \<in> set (printed (n1 @ n2))"
  proof (intro ballI allI impI)
    fix v content err
    assume v: "v \<in> set (u # urls)"
      and f: "rp_get v = Inr content \<and> write_file cwd ?fp content (disk w) = Inl err"
    show "''Failed to download '' @ v @ '': '' @ str_error err \<in> set (printed (n1 @ n2))"
    proof (cases "v = u")
      case True
      then show ?thesis
        using n1(7) f by (auto simp: printed_simps)
    next
      case False
      then have "v \<in> set urls"
        using v by simp
      moreover have "write_file cwd ?fp content (disk ?w1) = Inl err"
        using f keep by blast
      ultimately show ?thesis
        using n2(7) f by (auto simp: printed_simps)
    qed
  qed
  ultimately show ?case
    by blast
qed

definition sample_finder :: url_finder where
  "sample_finder i c s e t h =
     (if s = 1 then Inr [] else Inr [''osdf:///a.gwf'', ''osdf:///b.gwf'', ''osdf:///c.gwf''])"

definition sample_getter :: getter where
  "sample_getter u =
     (if u = ''osdf:///b.gwf'' then Inl (OtherException ''404'') else Inr (''frames of '' @ u))"

lemmas osdf_eval = process_row_def url_loop.simps process_url_def download_one_def
  base_dir_of_def filename_of_def filepath_of_def ifo_def osdf_channel_name_def osdf_host_def
  timeout_duration_def sample_finder_def sample_getter_def sample_world_def
  Let_def record_event_def makedirs_def write_file_def path_join_def startswith_sep_def
  endswith_sep_def sep_def str_int_eval abspath_def normpath_def initial_slashes_of_def
  makedirs_key.simps mkdir_exist_ok_def node_at_def is_root_def dirname_def basename_def
  rstrip_sep_def quote_def







definition row_dir_world :: world where
  "row_dir_world =
     \<lparr>disk = [''/w'' \<mapsto> Dir, ''/w/H1_GWOSC_O3a_4KHZ_R1'' \<mapsto> Dir,
              ''/w/H1_GWOSC_O3a_4KHZ_R1/3_4'' \<mapsto> Dir],
      fin_pending = [], events = []\<rparr>"

text \<open>
  C10. Every URL of a row is saved to the same path
  \<open>channel/start_end/channel_start_end.gwf\<close>, which does not depend on the URL. The
  URL loop writes to no other path and changes the disk nowhere else, and afterwards, when
  the path could be written and some download succeeded, the file holds the content of the
  last URL that was downloaded; otherwise the path is as it was.
\<close>

theorem all_urls_saved_to_one_path:
  "filepath_of s e = osdf_channel_name @ ''/'' @ str_int s @ ''_'' @ str_int e @ ''/''
       @ osdf_channel_name @ ''_'' @ str_int s @ ''_'' @ str_int e @ ''.gwf'' \<and>
   set (written_paths (new_events w (url_loop rp_get cwd s e urls w))) \<subseteq> {filepath_of s e} \<and>
   (\<forall>k. k \<noteq> abspath cwd (filepath_of s e) \<longrightarrow>
      disk (url_loop rp_get cwd s e urls w) k = disk w k) \<and>
   disk (url_loop rp_get cwd s e urls w) (abspath cwd (filepath_of s e)) =
     (if can_write cwd (filepath_of s e) (disk w) \<and> downloaded rp_get urls \<noteq> []
      then Some (File (last (downloaded rp_get urls)))
      else disk w (abspath cwd (filepath_of s e)))"
proof (intro conjI)
  show "filepath_of s e = osdf_channel_name @ ''/'' @ str_int s @ ''_'' @ str_int e @ ''/''
       @ osdf_channel_name @ ''_'' @ str_int s @ ''_'' @ str_int e @ ''.gwf''"
    by (rule filepath_literal)
  obtain new where n: "events (url_loop rp_get cwd s e urls w) = events w @ new"
    "set (written_paths new) \<subseteq> {filepath_of s e}"
    using url_loop_obs [of rp_get cwd s e urls w] by blast
  show "set (written_paths (new_events w (url_loop rp_get cwd s e urls w))) \<subseteq> {filepath_of s e}"
    using n(2) new_events_from [OF n(1)] by simp
  show "\<forall>k. k \<noteq> abspath cwd (filepath_of s e) \<longrightarrow>
      disk (url_loop rp_get cwd s e urls w) k = disk w k"
    by (simp add: url_loop_disk)
  show "disk (url_loop rp_get cwd s e urls w) (abspath cwd (filepath_of s e)) =
     (if can_write cwd (filepath_of s e) (disk w) \<and> downloaded rp_get urls \<noteq> []
      then Some (File (last (downloaded rp_get urls)))
      else disk w (abspath cwd (filepath_of s e)))"
    by (simp add: url_loop_disk)
qed

theorem all_urls_saved_to_one_path_witness:
  "filepath_of 3 4 = ''H1_GWOSC_O3a_4KHZ_R1/3_4/H1_GWOSC_O3a_4KHZ_R1_3_4.gwf'' \<and>
   disk (url_loop sample_getter ''/w'' 3 4 [''osdf:///a.gwf'', ''osdf:///b.gwf'', ''osdf:///c.gwf'']
      row_dir_world) ''/w/H1_GWOSC_O3a_4KHZ_R1/3_4/H1_GWOSC_O3a_4KHZ_R1_3_4.gwf''
     = Some (File ''frames of osdf:///c.gwf'')"
proof -
  let ?urls = "[''osdf:///a.gwf'', ''osdf:///b.gwf'', ''osdf:///c.gwf'']"
  note t = all_urls_saved_to_one_path [where s = 3 and e = 4 and w = row_dir_world
      and rp_get = sample_getter and cwd = "''/w''" and urls = ?urls]
  have p: "filepath_of 3 4 = ''H1_GWOSC_O3a_4KHZ_R1/3_4/H1_GWOSC_O3a_4KHZ_R1_3_4.gwf''"
    using t by (simp add: osdf_channel_name_def str_int_eval)
  have k: "abspath ''/w'' (filepath_of 3 4)
      = ''/w/H1_GWOSC_O3a_4KHZ_R1/3_4/H1_GWOSC_O3a_4KHZ_R1_3_4.gwf''"
    unfolding p by (simp add: osdf_eval)
  have c: "can_write ''/w'' (filepath_of 3 4) (disk row_dir_world)"
    unfolding p by (simp add: can_write_def osdf_eval row_dir_world_def)
  have d: "downloaded sample_getter ?urls = [''frames of osdf:///a.gwf'', ''frames of osdf:///c.gwf'']"
    by (simp add: downloaded_def sample_getter_def)
  show ?thesis
    using t p k c d by simp
qed

lemma time_loop_events:
  "time_loop fetch cwd c (sanitize c) trs w = (r, w') \<Longrightarrow> \<exists>new. events w' = events w @ new"
proof (cases r)
  case Completed
  assume "time_loop fetch cwd c (sanitize c) trs w = (r, w')"
  then show ?thesis
    using Completed time_loop_Completed [of fetch cwd c trs w w'] by auto
next
  case (Raised err)
  assume "time_loop fetch cwd c (sanitize c) trs w = (r, w')"
  then show ?thesis
    using Raised time_loop_Raised [of fetch cwd c trs w err w'] by auto
qed

lemma process_channel_row_first_event:
  assumes "process_channel_row fetch cwd trs c w = (r, w')"
  shows "\<exists>rest. new_events w w' = Makedirs (sanitize (channel c)) # rest \<and>
    (fetch_calls rest \<noteq> [] \<longrightarrow> (\<exists>d. makedirs cwd (sanitize (channel c)) (disk w) = Inr d))"
proof (cases "makedirs cwd (sanitize (channel c)) (disk w)")
  case (Inl e)
  then have "w' = record_event (Makedirs (sanitize (channel c))) w"
    using assms by (simp add: process_channel_row_def Let_def sanitize_def disk_record_event)
  then have "new_events w w' = [Makedirs (sanitize (channel c))]"
    by (simp add: new_events_def record_event_def)
  then show ?thesis
    by (simp add: fetch_calls_simps)
next
  case (Inr d1)
  let ?w1 = "(record_event (Makedirs (sanitize (channel c))) w)\<lparr>disk := d1\<rparr>"
  have "time_loop fetch cwd (channel c) (sanitize (channel c)) trs ?w1 = (r, w')"
    using assms Inr by (simp add: process_channel_row_def Let_def sanitize_def disk_record_event)
  then obtain new where "events w' = events ?w1 @ new"
    using time_loop_events by blast
  then have "events w' = events w @ (Makedirs (sanitize (channel c)) # new)"
    by (simp add: record_event_def)
  then have "new_events w w' = Makedirs (sanitize (channel c)) # new"
    by (rule new_events_from)
  then show ?thesis
    using Inr by simp
qed

lemma process_time_row_order:
  assumes "process_time_row fetch cwd ch cd tr v = (r, v')"
  shows "\<exists>rest. new_events v v' = Fetch ch (row_start tr) (row_end tr) nds_host # rest \<and>
    (r = Completed \<longrightarrow>
       take 2 rest =
         [Makedirs (time_dir_path_of cd (row_start tr) (row_end tr)),
          WriteFile (output_file_of ch (time_dir_path_of cd (row_start tr) (row_end tr))
             (row_start tr) (row_end tr))]) \<and>
    (\<forall>err. fetch ch (row_start tr) (row_end tr) nds_host = Inl err \<longrightarrow>
       r = Raised err \<and> rest = [] \<and> disk v' = disk v)"
proof (cases r)
  case Completed
  then have c: "process_time_row fetch cwd ch cd tr v = (Completed, v')"
    using assms by simp
  obtain data where f: "fetch ch (row_start tr) (row_end tr) nds_host = Inr data"
    and sv: "save_series cwd ch cd (row_start tr) (row_end tr) data
       (record_event (Fetch ch (row_start tr) (row_end tr) nds_host) v) = (Completed, v')"
    using process_time_row_Completed [OF c] by blast
  have "new_events v v' = Fetch ch (row_start tr) (row_end tr) nds_host #
     [Makedirs (time_dir_path_of cd (row_start tr) (row_end tr)),
      WriteFile (output_file_of ch (time_dir_path_of cd (row_start tr) (row_end tr))
        (row_start tr) (row_end tr)),
      Printed (''Aux data for channel '' @ [quote] @ ch @ [quote] @ '' from ''
        @ str_int (row_start tr) @ '' to '' @ str_int (row_end tr) @ '' saved to ''
        @ output_file_of ch (time_dir_path_of cd (row_start tr) (row_end tr))
            (row_start tr) (row_end tr)),
      FinWrite (manifest_line cwd
        (output_file_of ch (time_dir_path_of cd (row_start tr) (row_end tr))
           (row_start tr) (row_end tr)) data),
      Printed (''Added to fin.txt: ''
        @ abspath cwd (output_file_of ch (time_dir_path_of cd (row_start tr) (row_end tr))
            (row_start tr) (row_end tr))
        @ '' '' @ py_format (t0 data) @ '' '' @ py_format (dt data) @ '' 0 0'')]"
    using save_series_events [OF sv] by (intro new_events_from) (simp add: events_record_event)
  then show ?thesis
    using Completed f by simp
next
  case (Raised e)
  then have c: "process_time_row fetch cwd ch cd tr v = (Raised e, v')"
    using assms by simp
  let ?s = "row_start tr" and ?e = "row_end tr"
  let ?D = "time_dir_path_of cd ?s ?e"
  let ?F = "output_file_of ch ?D ?s ?e"
  consider
    (fetch) "fetch ch ?s ?e nds_host = Inl e" "v' = record_event (Fetch ch ?s ?e nds_host) v"
  | (mkdir) data where "fetch ch ?s ?e nds_host = Inr data"
      "v' = record_event (Makedirs ?D) (record_event (Fetch ch ?s ?e nds_host) v)"
  | (wr) data d1 where "fetch ch ?s ?e nds_host = Inr data"
      "v' = record_event (WriteFile ?F)
              ((record_event (Makedirs ?D) (record_event (Fetch ch ?s ?e nds_host) v))\<lparr>disk := d1\<rparr>)"
    using process_time_row_Raised [OF c] by blast
  then show ?thesis
  proof cases
    case fetch
    have "new_events v v' = [Fetch ch ?s ?e nds_host]"
      using fetch(2) by (simp add: new_events_def record_event_def)
    then show ?thesis
      using fetch Raised by (simp add: record_event_def)
  next
    case mkdir
    have "new_events v v' = [Fetch ch ?s ?e nds_host, Makedirs ?D]"
      using mkdir(2) by (simp add: new_events_def record_event_def)
    then show ?thesis
      using mkdir Raised by simp
  next
    case wr
    have "new_events v v' = [Fetch ch ?s ?e nds_host, Makedirs ?D, WriteFile ?F]"
      using wr(2) by (simp add: new_events_def record_event_def)
    then show ?thesis
      using wr Raised by simp
  qed
qed

text \<open>
  C6 (as amended). The directory of the channel is made before any fetch call for that
  channel: it is the first thing done for a channel row, and a fetch call is made only if
  it succeeded. The time-range subdirectory is made after the fetch call: the fetch call is
  the first thing done for a pair, the subdirectory is made next and the file written
  after it when the pair completes, and when the fetch raises nothing else is done and the
  disk is left as it was.
\<close>

theorem channel_directory_before_fetch_time_directory_after:
  "(process_channel_row fetch cwd time_ranges c w = (r, w') \<longrightarrow>
      (\<exists>rest. new_events w w' = Makedirs (sanitize (channel c)) # rest \<and>
         (fetch_calls rest \<noteq> [] \<longrightarrow>
            (\<exists>d. makedirs cwd (sanitize (channel c)) (disk w) = Inr d)))) \<and>
   (process_time_row fetch cwd ch cd tr v = (r1, v') \<longrightarrow>
      (\<exists>rest. new_events v v' = Fetch ch (row_start tr) (row_end tr) nds_host # rest \<and>
         (r1 = Completed \<longrightarrow>
            take 2 rest =
              [Makedirs (time_dir_path_of cd (row_start tr) (row_end tr)),
               WriteFile (output_file_of ch (time_dir_path_of cd (row_start tr) (row_end tr))
                  (row_start tr) (row_end tr))]) \<and>
         (\<forall>err. fetch ch (row_start tr) (row_end tr) nds_host = Inl err \<longrightarrow>
            r1 = Raised err \<and> rest = [] \<and> disk v' = disk v)))"
  using process_channel_row_first_event [of fetch cwd time_ranges c w r w']
    process_time_row_order [of fetch cwd ch cd tr v r1 v']
  by blast

theorem channel_directory_before_fetch_time_directory_after_witness:
  "take 1 (new_events sample_world
      (snd (process_channel_row failing_fetch ''/w'' three_ranges
         \<lparr>channel = ''H1:A'', sampling_rate = 16\<rparr> sample_world)))
     = [Makedirs ''H1_A''] \<and>
   process_time_row failing_fetch ''/w'' ''H1:A'' ''H1_A'' \<lparr>row_start = 1, row_end = 2\<rparr>
      sample_world
     = (Raised (OtherException ''unreachable''),
        snd (process_time_row failing_fetch ''/w'' ''H1:A'' ''H1_A''
          \<lparr>row_start = 1, row_end = 2\<rparr> sample_world)) \<and>
   disk (snd (process_time_row failing_fetch ''/w'' ''H1:A'' ''H1_A''
      \<lparr>row_start = 1, row_end = 2\<rparr> sample_world)) = disk sample_world"
proof -
  let ?c = "\<lparr>channel = ''H1:A'', sampling_rate = 16\<rparr>"
  let ?tr = "\<lparr>row_start = 1, row_end = 2\<rparr>"
  let ?x = "process_channel_row failing_fetch ''/w'' three_ranges ?c sample_world"
  let ?y = "process_time_row failing_fetch ''/w'' ''H1:A'' ''H1_A'' ?tr sample_world"
  note t = channel_directory_before_fetch_time_directory_after
    [where fetch = failing_fetch and cwd = "''/w''" and time_ranges = three_ranges and c = ?c
      and w = sample_world and r = "fst ?x" and w' = "snd ?x" and ch = "''H1:A''"
      and cd = "''H1_A''" and tr = ?tr and v = sample_world and ?r1.0 = "fst ?y"
      and v' = "snd ?y"]
  have f: "failing_fetch ''H1:A'' (row_start ?tr) (row_end ?tr) nds_host
      = Inl (OtherException ''unreachable'')"
    by (simp add: failing_fetch_def)
  have s: "sanitize (channel ?c) = ''H1_A''"
    by (simp add: sanitize_map)
  have a: "take 1 (new_events sample_world (snd ?x)) = [Makedirs ''H1_A'']"
    using t s by auto
  have b: "fst ?y = Raised (OtherException ''unreachable'') \<and> disk (snd ?y) = disk sample_world"
    using t f by auto
  then have "?y = (Raised (OtherException ''unreachable''), snd ?y)"
    by (metis prod.collapse)
  then show ?thesis
    using a b by simp
qed

text \<open>
  The claim as first stated, no fetch before the pair's full directory exists, fails: when
  the first fetch raises, the call has been made and the directory \<open>H1_A/1_2\<close> exists
  neither then nor afterwards; and in a run that completes, the fetch call for the first
  pair comes before the \<^verbatim>\<open>makedirs\<close> call for its directory.
\<close>

theorem fetch_precedes_time_range_directory:
  "fetch_calls (events (snd (fetchdat failing_fetch ''/w'' two_channels three_ranges sample_world)))
     = [(''H1:A'', 1, 2)] \<and>
   node_at (disk (snd (fetchdat failing_fetch ''/w'' two_channels three_ranges sample_world)))
     (abspath ''/w'' (pair_dir (''H1:A'', 1, 2))) = None \<and>
   take 3 (events (snd (fetchdat steady_fetch ''/w'' two_channels three_ranges sample_world)))
     = [Makedirs ''H1_A'', Fetch ''H1:A'' 1 2 ''nds.gwosc.org'', Makedirs ''H1_A/1_2'']"
  by (simp add: driver_eval fetch_calls_simps sanitize_def)

definition opened_world :: world where
  "opened_world =
     \<lparr>disk = [''/w'' \<mapsto> Dir, ''/w/fin.txt'' \<mapsto> File []], fin_pending = [], events = []\<rparr>"

lemma fin_write_buffered:
  assumes "length (fin_pending w) + length t < buffer_size"
  shows "disk (fin_write cwd t w) = disk w" and "fin_pending (fin_write cwd t w) = fin_pending w @ t"
  using assms by (simp_all add: fin_write_def Let_def record_event_def)

lemma save_series_buffered:
  assumes sv: "save_series cwd channel_name channel_dir s e data w = (Completed, w')"
    and short: "length (fin_pending w)
      + length (manifest_line cwd (output_file_of channel_name (time_dir_path_of channel_dir s e) s e)
          data) < buffer_size"
  shows "file_text (disk w') (abspath cwd fin_file) = file_text (disk w) (abspath cwd fin_file)"
    and "fin_pending w' = fin_pending w
      @ manifest_line cwd (output_file_of channel_name (time_dir_path_of channel_dir s e) s e) data"
proof -
  let ?D = "time_dir_path_of channel_dir s e"
  let ?F = "output_file_of channel_name ?D s e"
  obtain d1 d2 where m: "makedirs cwd ?D (disk w) = Inr d1"
    and wr: "write_file cwd ?F (payload data) d1 = Inr d2"
    and w': "w' = record_event
      (Printed (''Added to fin.txt: '' @ abspath cwd ?F
         @ '' '' @ py_format (t0 data) @ '' '' @ py_format (dt data) @ '' 0 0''))
      (fin_write cwd (manifest_line cwd ?F data)
        (record_event
          (Printed (''Aux data for channel '' @ [quote] @ channel_name @ [quote] @ '' from ''
             @ str_int s @ '' to '' @ str_int e @ '' saved to '' @ ?F))
          ((record_event (WriteFile ?F)
              ((record_event (Makedirs ?D) w)\<lparr>disk := d1\<rparr>))
           \<lparr>disk := d2\<rparr>)))"
    using save_series_Completed [OF sv] by blast
  let ?w3 = "record_event
          (Printed (''Aux data for channel '' @ [quote] @ channel_name @ [quote] @ '' from ''
             @ str_int s @ '' to '' @ str_int e @ '' saved to '' @ ?F))
          ((record_event (WriteFile ?F)
              ((record_event (Makedirs ?D) w)\<lparr>disk := d1\<rparr>))
           \<lparr>disk := d2\<rparr>)"
  have p3: "fin_pending ?w3 = fin_pending w" and d3: "disk ?w3 = d2"
    by (simp_all add: record_event_def)
  have sh: "length (fin_pending ?w3) + length (manifest_line cwd ?F data) < buffer_size"
    using short p3 by simp
  have k: "abspath cwd fin_file \<noteq> abspath cwd ?F"
    using output_key_not_fin [of cwd channel_name ?D s e] by simp
  have "file_text d2 (abspath cwd fin_file) = file_text d1 (abspath cwd fin_file)"
    using write_file_file_text_other [OF wr k] .
  also have "\<dots> = file_text (disk w) (abspath cwd fin_file)"
    using makedirs_file_text [OF m] .
  finally have f: "file_text d2 (abspath cwd fin_file) = file_text (disk w) (abspath cwd fin_file)" .
  show "file_text (disk w') (abspath cwd fin_file) = file_text (disk w) (abspath cwd fin_file)"
    unfolding w' using fin_write_buffered(1) [OF sh, of cwd] d3 f
    by (simp add: disk_record_event)
  show "fin_pending w' = fin_pending w @ manifest_line cwd ?F data"
    unfolding w' using fin_write_buffered(2) [OF sh, of cwd] p3
    by (simp add: fin_pending_record_event)
qed

lemma channel_loop_manifest_text:
  assumes "channel_loop fetch cwd trs cs w = (r, w')"
  shows "\<exists>new. events w' = events w @ new \<and>
    manifest_text cwd w' = manifest_text cwd w @ concat (fin_writes new)"
proof (cases r)
  case Completed
  then have c: "channel_loop fetch cwd trs cs w = (Completed, w')"
    using assms by simp
  note l = channel_loop_Completed [OF c]
  have "fin_writes (run_events fetch cwd cs trs) = map (pair_line fetch cwd) (pairs cs trs)"
    using run_events_done [of fetch cs trs cwd] l by (simp add: done_block_def)
  then show ?thesis
    using l by (intro exI [of _ "run_events fetch cwd cs trs"]) simp
next
  case (Raised err)
  then have "channel_loop fetch cwd trs cs w = (Raised err, w')"
    using assms by simp
  then show ?thesis
    using channel_loop_Raised by blast
qed

lemma fetchdat_manifest_closed:
  assumes "fetchdat fetch cwd cs trs w = (r, w')"
  shows "file_text (disk w') (abspath cwd fin_file)
      = file_text (disk w) (abspath cwd fin_file) @ concat (fin_writes (new_events w w'))"
    and "open_append cwd fin_file w = Inr w1 \<Longrightarrow> fin_pending w' = []"
proof -
  show "file_text (disk w') (abspath cwd fin_file)
      = file_text (disk w) (abspath cwd fin_file) @ concat (fin_writes (new_events w w'))"
  proof (cases "open_append cwd fin_file w")
    case (Inl e)
    then have "w' = w"
      using assms by (simp add: fetchdat_def)
    then show ?thesis
      by (simp add: new_events_def fin_writes_simps)
  next
    case (Inr v1)
    then obtain w2 where l: "channel_loop fetch cwd trs cs v1 = (r, w2)"
      and c: "w' = fin_close cwd w2"
      using assms by (auto simp: fetchdat_def split: prod.splits)
    obtain new where n: "events w2 = events v1 @ new"
      "manifest_text cwd w2 = manifest_text cwd v1 @ concat (fin_writes new)"
      using channel_loop_manifest_text [OF l] by blast
    have "events w' = events w @ new"
      using n(1) c open_append_ok(1) [OF Inr] by (simp add: fin_close_result)
    then have "new_events w w' = new"
      by (rule new_events_from)
    then show ?thesis
      using n(2) c open_append_ok(3) [OF Inr] by (simp add: fin_close_result)
  qed
  show "open_append cwd fin_file w = Inr w1 \<Longrightarrow> fin_pending w' = []"
    using assms by (auto simp: fetchdat_def fin_close_result split: prod.splits)
qed

text \<open>
  C5 (as amended). When a pair has been processed to the end, its line has been written to
  the manifest file object before the next pair begins, but the script does not flush:
  as long as the buffer of the file object has room for the line, the line is added to the
  buffer and the file on disk is left as it was. The \<^verbatim>\<open>with\<close> block closes the file
  when the batch ends, normally or by an exception, and from then on the file holds what
  it held before followed by every line that was written, nothing being left in the
  buffer.
\<close>

theorem manifest_lines_buffered_until_close:
  "(process_time_row fetch cwd channel_name channel_dir tr v = (Completed, v') \<longrightarrow>
      (\<exists>data line.
         fetch channel_name (row_start tr) (row_end tr) nds_host = Inr data \<and>
         line = manifest_line cwd
           (output_file_of channel_name
              (time_dir_path_of channel_dir (row_start tr) (row_end tr))
              (row_start tr) (row_end tr)) data \<and>
         manifest_text cwd v' = manifest_text cwd v @ line \<and>
         (length (fin_pending v) + length line < buffer_size \<longrightarrow>
            fin_pending v' = fin_pending v @ line \<and>
            file_text (disk v') (abspath cwd fin_file)
              = file_text (disk v) (abspath cwd fin_file)))) \<and>
   (fetchdat fetch cwd channels time_ranges w = (r, w') \<longrightarrow>
      file_text (disk w') (abspath cwd fin_file)
        = file_text (disk w) (abspath cwd fin_file) @ concat (fin_writes (new_events w w')) \<and>
      (\<forall>w1. open_append cwd fin_file w = Inr w1 \<longrightarrow> fin_pending w' = []))"
proof (intro conjI impI)
  assume c: "process_time_row fetch cwd channel_name channel_dir tr v = (Completed, v')"
  let ?F = "output_file_of channel_name
     (time_dir_path_of channel_dir (row_start tr) (row_end tr)) (row_start tr) (row_end tr)"
  obtain data where f: "fetch channel_name (row_start tr) (row_end tr) nds_host = Inr data"
    and sv: "save_series cwd channel_name channel_dir (row_start tr) (row_end tr) data
       (record_event (Fetch channel_name (row_start tr) (row_end tr) nds_host) v) = (Completed, v')"
    using process_time_row_Completed [OF c] by blast
  let ?v1 = "record_event (Fetch channel_name (row_start tr) (row_end tr) nds_host) v"
  have m: "manifest_text cwd v' = manifest_text cwd v @ manifest_line cwd ?F data"
    using save_series_manifest_text [OF sv] by (simp add: manifest_text_record_event)
  have b: "fin_pending v' = fin_pending v @ manifest_line cwd ?F data \<and>
      file_text (disk v') (abspath cwd fin_file) = file_text (disk v) (abspath cwd fin_file)"
    if "length (fin_pending v) + length (manifest_line cwd ?F data) < buffer_size"
  proof -
    have "length (fin_pending ?v1) + length (manifest_line cwd ?F data) < buffer_size"
      using that by (simp add: fin_pending_record_event)
    then show ?thesis
      using save_series_buffered [OF sv] by (simp add: fin_pending_record_event disk_record_event)
  qed
  show "\<exists>data line.
         fetch channel_name (row_start tr) (row_end tr) nds_host = Inr data \<and>
         line = manifest_line cwd ?F data \<and>
         manifest_text cwd v' = manifest_text cwd v @ line \<and>
         (length (fin_pending v) + length line < buffer_size \<longrightarrow>
            fin_pending v' = fin_pending v @ line \<and>
            file_text (disk v') (abspath cwd fin_file)
              = file_text (disk v) (abspath cwd fin_file))"
    using f m b by blast
next
  assume "fetchdat fetch cwd channels time_ranges w = (r, w')"
  then show "file_text (disk w') (abspath cwd fin_file)
        = file_text (disk w) (abspath cwd fin_file) @ concat (fin_writes (new_events w w'))"
    by (rule fetchdat_manifest_closed(1))
next
  assume "fetchdat fetch cwd channels time_ranges w = (r, w')"
  then show "\<forall>w1. open_append cwd fin_file w = Inr w1 \<longrightarrow> fin_pending w' = []"
    using fetchdat_manifest_closed(2) by blast
qed

theorem manifest_lines_buffered_until_close_witness:
  "fin_pending (snd (fetchdat steady_fetch ''/w'' two_channels three_ranges sample_world)) = [] \<and>
   file_text (disk (snd (fetchdat steady_fetch ''/w'' two_channels three_ranges sample_world)))
     (abspath ''/w'' fin_file)
     = concat (fin_writes (new_events sample_world
         (snd (fetchdat steady_fetch ''/w'' two_channels three_ranges sample_world))))"
proof -
  let ?x = "fetchdat steady_fetch ''/w'' two_channels three_ranges sample_world"
  note t = manifest_lines_buffered_until_close
    [where fetch = steady_fetch and cwd = "''/w''" and channels = two_channels
      and time_ranges = three_ranges and w = sample_world and r = "fst ?x" and w' = "snd ?x"]
  have o: "open_append ''/w'' fin_file sample_world = Inr opened_world"
    by (simp add: open_append_def Let_def fin_file_def sample_world_def opened_world_def
        abspath_def normpath_def path_join_def startswith_sep_def endswith_sep_def sep_def
        initial_slashes_of_def node_at_def is_root_def dirname_def rstrip_sep_def)
  have e: "file_text (disk sample_world) (abspath ''/w'' fin_file) = []"
    by (simp add: file_text_def sample_world_def fin_file_def abspath_def normpath_def
        path_join_def startswith_sep_def endswith_sep_def sep_def initial_slashes_of_def)
  show ?thesis
    using t o e by simp
qed

text \<open>
  The claim as first stated, each line flushed before the next pair begins, fails: when
  all six pairs of the sample run have been processed and the file is not yet closed, the
  file on disk is still empty and the six lines are in the buffer.
\<close>

theorem six_lines_written_none_on_disk:
  "open_append ''/w'' fin_file sample_world = Inr opened_world \<and>
   fst (channel_loop steady_fetch ''/w'' three_ranges two_channels opened_world) = Completed \<and>
   length (fin_writes (events
      (snd (channel_loop steady_fetch ''/w'' three_ranges two_channels opened_world)))) = 6 \<and>
   file_text (disk (snd (channel_loop steady_fetch ''/w'' three_ranges two_channels opened_world)))
     (abspath ''/w'' fin_file) = [] \<and>
   fin_pending (snd (channel_loop steady_fetch ''/w'' three_ranges two_channels opened_world))
     = concat (fin_writes (events
         (snd (channel_loop steady_fetch ''/w'' three_ranges two_channels opened_world))))"
  by (simp add: driver_eval opened_world_def fin_writes_simps)

text \<open>The directory tree: which paths are directories and which are files, whatever the
  files hold.\<close>

datatype kind = IsDir | IsFile

definition shape :: "filesystem \<Rightarrow> string \<Rightarrow> kind option" where
  "shape d k =
     (case node_at d k of None \<Rightarrow> None | Some Dir \<Rightarrow> Some IsDir | Some (File _) \<Rightarrow> Some IsFile)"

text \<open>Nothing that exists disappears or changes its kind.\<close>

definition grows :: "filesystem \<Rightarrow> filesystem \<Rightarrow> bool" where
  "grows d d' \<longleftrightarrow> (\<forall>k x. shape d k = Some x \<longrightarrow> shape d' k = Some x)"

text \<open>A directory that \<^verbatim>\<open>os.makedirs\<close> finds in place, and a file that can be overwritten.\<close>

definition dir_settled :: "(string \<Rightarrow> kind option) \<Rightarrow> string \<Rightarrow> bool" where
  "dir_settled t k \<longleftrightarrow>
     t k = Some IsDir \<and> (dirname k = [] \<or> basename k = [] \<or> t (dirname k) \<noteq> None)"

definition file_settled :: "(string \<Rightarrow> kind option) \<Rightarrow> string \<Rightarrow> string \<Rightarrow> bool" where
  "file_settled t cwd path \<longleftrightarrow> path \<noteq> [] \<and> t (abspath cwd path) = Some IsFile"

lemma grows_refl: "grows d d"
  by (simp add: grows_def)

lemma grows_trans: "grows a b \<Longrightarrow> grows b c \<Longrightarrow> grows a c"
  by (simp add: grows_def)

lemma grows_dir_settled: "grows d d' \<Longrightarrow> dir_settled (shape d) k \<Longrightarrow> dir_settled (shape d') k"
  unfolding grows_def dir_settled_def by (metis not_Some_eq)

lemma grows_file_settled:
  "grows d d' \<Longrightarrow> file_settled (shape d) cwd p \<Longrightarrow> file_settled (shape d') cwd p"
  unfolding grows_def file_settled_def by blast

lemma shape_None_iff: "shape d k = None \<longleftrightarrow> node_at d k = None"
  by (simp add: shape_def split: option.splits node.splits)

lemma shape_Dir_iff: "shape d k = Some IsDir \<longleftrightarrow> node_at d k = Some Dir"
  by (simp add: shape_def split: option.splits node.splits)

lemma shape_File_iff: "shape d k = Some IsFile \<longleftrightarrow> (\<exists>c. node_at d k = Some (File c))"
  by (simp add: shape_def split: option.splits node.splits)

lemma node_at_upd_other: "k \<noteq> name \<Longrightarrow> node_at (d(name \<mapsto> n)) k = node_at d k"
  by (simp add: node_at_def)

lemma shape_upd_other: "k \<noteq> name \<Longrightarrow> shape (d(name \<mapsto> n)) k = shape d k"
  by (simp add: shape_def node_at_upd_other)

lemma mkdir_exist_ok_shape:
  assumes "mkdir_exist_ok name d = Inr d'"
  shows "grows d d'" and "shape d' name = Some IsDir"
proof -
  have dir: "node_at d' name = Some Dir"
    using assms by (rule mkdir_exist_ok_is_dir)
  show "shape d' name = Some IsDir"
    using dir by (simp add: shape_Dir_iff)
  consider (same) "d' = d" | (new) "d name = None" "d' = d(name \<mapsto> Dir)" "node_at d name = None"
    using assms
    by (auto simp: mkdir_exist_ok_def node_at_def split: option.splits node.splits if_splits)
  then show "grows d d'"
  proof cases
    case same
    then show ?thesis by (simp add: grows_refl)
  next
    case new
    show ?thesis
      unfolding grows_def
    proof (intro allI impI)
      fix k x
      assume s: "shape d k = Some x"
      then have "k \<noteq> name"
        using new(3) by (auto simp: shape_None_iff [symmetric])
      then show "shape d' k = Some x"
        using s new(2) by (simp add: shape_upd_other)
    qed
  qed
qed

lemma makedirs_key_shape:
  "makedirs_key name d = Inr d' \<Longrightarrow> grows d d' \<and> dir_settled (shape d') name"
proof (induction name d arbitrary: d' rule: makedirs_key.induct)
  case (1 name d)
  show ?case
  proof (cases "dirname name \<noteq> [] \<and> basename name \<noteq> [] \<and> node_at d (dirname name) = None")
    case True
    then obtain d1 where d1: "makedirs_key (dirname name) d = Inr d1"
      and m: "mkdir_exist_ok name d1 = Inr d'"
      using "1.prems" by (subst (asm) makedirs_key.simps) (auto simp: Let_def split: sum.splits)
    have ih: "grows d d1 \<and> dir_settled (shape d1) (dirname name)"
      using "1.IH" [OF refl refl True d1] .
    have g: "grows d1 d'" and n: "shape d' name = Some IsDir"
      using mkdir_exist_ok_shape [OF m] by simp_all
    have "shape d1 (dirname name) = Some IsDir"
      using ih by (simp add: dir_settled_def)
    then have "shape d' (dirname name) = Some IsDir"
      using g by (simp add: grows_def)
    then have "dir_settled (shape d') name"
      using n by (simp add: dir_settled_def)
    then show ?thesis
      using ih g grows_trans by blast
  next
    case False
    then have m: "mkdir_exist_ok name d = Inr d'"
      using "1.prems" by (subst (asm) makedirs_key.simps) (auto simp: Let_def)
    have g: "grows d d'" and n: "shape d' name = Some IsDir"
      using mkdir_exist_ok_shape [OF m] by simp_all
    have "dirname name = [] \<or> basename name = [] \<or> shape d' (dirname name) \<noteq> None"
    proof (cases "dirname name = [] \<or> basename name = []")
      case True
      then show ?thesis by blast
    next
      case f: False
      have "node_at d (dirname name) \<noteq> None"
        using f False by auto
      then obtain x where "shape d (dirname name) = Some x"
        using shape_None_iff [of d "dirname name"] by (cases "shape d (dirname name)") auto
      then have "shape d' (dirname name) = Some x"
        using g by (simp add: grows_def)
      then show ?thesis by simp
    qed
    then show ?thesis
      using g n by (simp add: dir_settled_def)
  qed
qed

lemma makedirs_key_settled: "dir_settled (shape d) name \<Longrightarrow> makedirs_key name d = Inr d"
proof -
  assume s: "dir_settled (shape d) name"
  have dir: "node_at d name = Some Dir"
    using s by (simp add: dir_settled_def shape_Dir_iff)
  have "\<not> (dirname name \<noteq> [] \<and> basename name \<noteq> [] \<and> node_at d (dirname name) = None)"
    using s by (auto simp: dir_settled_def shape_None_iff)
  then have "makedirs_key name d = mkdir_exist_ok name d"
    by (subst makedirs_key.simps) (auto simp: Let_def)
  then show ?thesis
    using dir by (simp add: mkdir_exist_ok_def)
qed

lemma makedirs_shape:
  "makedirs cwd name d = Inr d' \<Longrightarrow>
     grows d d' \<and> name \<noteq> [] \<and> dir_settled (shape d') (abspath cwd name)"
  by (auto simp: makedirs_def split: if_splits dest: makedirs_key_shape)

lemma makedirs_settled:
  "name \<noteq> [] \<Longrightarrow> dir_settled (shape d) (abspath cwd name) \<Longrightarrow> makedirs cwd name d = Inr d"
  by (simp add: makedirs_def makedirs_key_settled)

lemma write_file_shape:
  assumes "write_file cwd path content d = Inr d'"
  shows "grows d d'" and "file_settled (shape d') cwd path"
proof -
  have r: "d' = d(abspath cwd path \<mapsto> File content)" "node_at d (abspath cwd path) \<noteq> Some Dir"
    using write_file_result [OF assms] by auto
  have p: "path \<noteq> []"
    using assms by (auto simp: write_file_def split: if_splits)
  have f: "shape d' (abspath cwd path) = Some IsFile"
    using write_file_node_at(1) [OF assms] by (auto simp: shape_File_iff)
  show "file_settled (shape d') cwd path"
    using p f by (simp add: file_settled_def)
  show "grows d d'"
    unfolding grows_def
  proof (intro allI impI)
    fix k x
    assume s: "shape d k = Some x"
    show "shape d' k = Some x"
    proof (cases "k = abspath cwd path")
      case True
      then have "x \<noteq> IsDir"
        using s r(2) by (auto simp: shape_Dir_iff)
      then have "x = IsFile"
        by (cases x) auto
      then show ?thesis
        using True f by simp
    next
      case False
      then show ?thesis
        using s r(1) by (simp add: shape_upd_other)
    qed
  qed
qed

lemma shape_overwrite:
  assumes "shape d k = Some IsFile"
  shows "shape (d(k \<mapsto> File content)) = shape d"
proof
  fix j
  have nr: "\<not> is_root k"
    using assms by (auto simp: shape_def node_at_def split: if_splits)
  show "shape (d(k \<mapsto> File content)) j = shape d j"
  proof (cases "j = k")
    case True
    then show ?thesis
      using assms nr by (simp add: shape_def node_at_def)
  next
    case False
    then show ?thesis
      by (simp add: shape_upd_other)
  qed
qed

lemma write_file_settled:
  assumes "file_settled (shape d) cwd path"
  shows "write_file cwd path content d = Inr (d(abspath cwd path \<mapsto> File content))"
    and "shape (d(abspath cwd path \<mapsto> File content)) = shape d"
proof -
  have p: "path \<noteq> []" and f: "shape d (abspath cwd path) = Some IsFile"
    using assms by (simp_all add: file_settled_def)
  obtain c where "node_at d (abspath cwd path) = Some (File c)"
    using f by (auto simp: shape_File_iff)
  then show "write_file cwd path content d = Inr (d(abspath cwd path \<mapsto> File content))"
    using p by (simp add: write_file_def Let_def)
  show "shape (d(abspath cwd path \<mapsto> File content)) = shape d"
    using f by (rule shape_overwrite)
qed

lemma fin_flush_shape:
  "shape (disk w) (abspath cwd fin_file) = Some IsFile \<Longrightarrow>
   shape (disk (fin_flush cwd w)) = shape (disk w)"
  by (simp add: fin_flush_def Let_def shape_overwrite)

lemma fin_write_shape:
  "shape (disk w) (abspath cwd fin_file) = Some IsFile \<Longrightarrow>
   shape (disk (fin_write cwd t w)) = shape (disk w)"
  by (simp add: fin_write_def fin_flush_def Let_def record_event_def shape_overwrite)

lemma fin_close_shape:
  "shape (disk w) (abspath cwd fin_file) = Some IsFile \<Longrightarrow>
   shape (disk (fin_close cwd w)) = shape (disk w)"
  by (simp add: fin_close_def fin_flush_shape)

lemma open_append_opened:
  "open_append cwd fin_file w = Inr w1 \<Longrightarrow> shape (disk w1) (abspath cwd fin_file) = Some IsFile"
  by (auto simp: open_append_def Let_def shape_def node_at_def
      split: option.splits node.splits if_splits)

lemma open_append_settled:
  "shape (disk w) (abspath cwd fin_file) = Some IsFile \<Longrightarrow>
   open_append cwd fin_file w = Inr (w\<lparr>fin_pending := []\<rparr>)"
  by (auto simp: open_append_def Let_def shape_File_iff)

lemma grows_same_shape: "shape d' = shape d \<Longrightarrow> grows d d'"
  by (simp add: grows_def)

lemma grows_to_same_shape: "grows a b \<Longrightarrow> shape c = shape b \<Longrightarrow> grows a c"
  by (simp add: grows_def)

text \<open>What a completed pair and a completed channel row leave on the disk.\<close>

definition pair_settled :: "(string \<Rightarrow> kind option) \<Rightarrow> string \<Rightarrow> pair \<Rightarrow> bool" where
  "pair_settled t cwd p \<longleftrightarrow>
     pair_dir p \<noteq> [] \<and> dir_settled t (abspath cwd (pair_dir p)) \<and> file_settled t cwd (pair_file p)"

definition channel_settled :: "(string \<Rightarrow> kind option) \<Rightarrow> string \<Rightarrow> channel_row \<Rightarrow> bool" where
  "channel_settled t cwd c \<longleftrightarrow>
     sanitize (channel c) \<noteq> [] \<and> dir_settled t (abspath cwd (sanitize (channel c)))"

definition fin_opened :: "(string \<Rightarrow> kind option) \<Rightarrow> string \<Rightarrow> bool" where
  "fin_opened t cwd \<longleftrightarrow> t (abspath cwd fin_file) = Some IsFile"

lemma grows_pair_settled:
  "grows d d' \<Longrightarrow> pair_settled (shape d) cwd p \<Longrightarrow> pair_settled (shape d') cwd p"
  by (simp add: pair_settled_def grows_dir_settled grows_file_settled)

lemma grows_channel_settled:
  "grows d d' \<Longrightarrow> channel_settled (shape d) cwd c \<Longrightarrow> channel_settled (shape d') cwd c"
  by (simp add: channel_settled_def grows_dir_settled)

lemma grows_fin_opened: "grows d d' \<Longrightarrow> fin_opened (shape d) cwd \<Longrightarrow> fin_opened (shape d') cwd"
  by (simp add: fin_opened_def grows_def)

text \<open>What the pairs \<open>ps\<close>, processed in order, leave in the file with key \<open>k\<close>: the
  series of the last pair whose output file has that key, if there is one.\<close>

fun pair_content :: "fetcher \<Rightarrow> pair \<Rightarrow> string" where
  "pair_content fetch (c, s, e) =
     (case fetch c s e nds_host of Inl _ \<Rightarrow> [] | Inr data \<Rightarrow> payload data)"

fun last_written :: "fetcher \<Rightarrow> string \<Rightarrow> pair list \<Rightarrow> string \<Rightarrow> string option" where
  "last_written fetch cwd [] k = None"
| "last_written fetch cwd (p # ps) k =
     (case last_written fetch cwd ps k of
        Some c \<Rightarrow> Some c
      | None \<Rightarrow> if abspath cwd (pair_file p) = k then Some (pair_content fetch p) else None)"

definition overwritten :: "fetcher \<Rightarrow> string \<Rightarrow> pair list \<Rightarrow> filesystem \<Rightarrow> filesystem \<Rightarrow> bool" where
  "overwritten fetch cwd ps d d' \<longleftrightarrow>
     (\<forall>k. k \<noteq> abspath cwd fin_file \<longrightarrow>
        (case last_written fetch cwd ps k of
           Some c \<Rightarrow> d' k = Some (File c)
         | None \<Rightarrow> (\<forall>c. d k = Some (File c) \<longrightarrow> d' k = Some (File c))))"

definition rewritten :: "fetcher \<Rightarrow> string \<Rightarrow> pair list \<Rightarrow> filesystem \<Rightarrow> filesystem \<Rightarrow> bool" where
  "rewritten fetch cwd ps d d' \<longleftrightarrow>
     (\<forall>k. k \<noteq> abspath cwd fin_file \<longrightarrow>
        d' k = (case last_written fetch cwd ps k of Some c \<Rightarrow> Some (File c) | None \<Rightarrow> d k))"

lemma last_written_append:
  "last_written fetch cwd (ps @ qs) k =
     (case last_written fetch cwd qs k of Some c \<Rightarrow> Some c | None \<Rightarrow> last_written fetch cwd ps k)"
  by (induction ps) (auto split: option.splits)

lemma overwritten_append:
  assumes "overwritten fetch cwd ps d d1" and "overwritten fetch cwd qs d1 d2"
  shows "overwritten fetch cwd (ps @ qs) d d2"
  unfolding overwritten_def
proof (intro allI impI)
  fix k
  assume k: "k \<noteq> abspath cwd fin_file"
  have a: "case last_written fetch cwd ps k of
           Some c \<Rightarrow> d1 k = Some (File c)
         | None \<Rightarrow> (\<forall>c. d k = Some (File c) \<longrightarrow> d1 k = Some (File c))"
    using assms(1) k by (simp add: overwritten_def)
  have b: "case last_written fetch cwd qs k of
           Some c \<Rightarrow> d2 k = Some (File c)
         | None \<Rightarrow> (\<forall>c. d1 k = Some (File c) \<longrightarrow> d2 k = Some (File c))"
    using assms(2) k by (simp add: overwritten_def)
  show "case last_written fetch cwd (ps @ qs) k of
           Some c \<Rightarrow> d2 k = Some (File c)
         | None \<Rightarrow> (\<forall>c. d k = Some (File c) \<longrightarrow> d2 k = Some (File c))"
    using a b by (auto simp: last_written_append split: option.splits)
qed

lemma rewritten_append:
  assumes "rewritten fetch cwd ps d d1" and "rewritten fetch cwd qs d1 d2"
  shows "rewritten fetch cwd (ps @ qs) d d2"
  unfolding rewritten_def
proof (intro allI impI)
  fix k
  assume k: "k \<noteq> abspath cwd fin_file"
  have a: "d1 k = (case last_written fetch cwd ps k of Some c \<Rightarrow> Some (File c) | None \<Rightarrow> d k)"
    using assms(1) k by (simp add: rewritten_def)
  have b: "d2 k = (case last_written fetch cwd qs k of Some c \<Rightarrow> Some (File c) | None \<Rightarrow> d1 k)"
    using assms(2) k by (simp add: rewritten_def)
  show "d2 k = (case last_written fetch cwd (ps @ qs) k of Some c \<Rightarrow> Some (File c) | None \<Rightarrow> d k)"
    using a b by (auto simp: last_written_append split: option.splits)
qed

lemma overwritten_Nil: "(\<And>k c. d k = Some (File c) \<Longrightarrow> d' k = Some (File c)) \<Longrightarrow> overwritten fetch cwd [] d d'"
  by (simp add: overwritten_def)

lemma rewritten_Nil: "rewritten fetch cwd [] d d"
  by (simp add: rewritten_def)

lemma overwritten_Cons:
  "overwritten fetch cwd [p] d d1 \<Longrightarrow> overwritten fetch cwd ps d1 d2 \<Longrightarrow>
   overwritten fetch cwd (p # ps) d d2"
  using overwritten_append [of fetch cwd "[p]" d d1 ps d2] by simp

lemma rewritten_Cons:
  "rewritten fetch cwd [p] d d1 \<Longrightarrow> rewritten fetch cwd ps d1 d2 \<Longrightarrow>
   rewritten fetch cwd (p # ps) d d2"
  using rewritten_append [of fetch cwd "[p]" d d1 ps d2] by simp

lemma rewritten_after_overwritten:
  assumes "overwritten fetch cwd ps d0 d1" and "rewritten fetch cwd ps d1 d2"
    and "k \<noteq> abspath cwd fin_file"
  shows "d2 k = d1 k"
proof -
  have a: "case last_written fetch cwd ps k of
           Some c \<Rightarrow> d1 k = Some (File c)
         | None \<Rightarrow> (\<forall>c. d0 k = Some (File c) \<longrightarrow> d1 k = Some (File c))"
    using assms(1,3) by (simp add: overwritten_def)
  have b: "d2 k = (case last_written fetch cwd ps k of Some c \<Rightarrow> Some (File c) | None \<Rightarrow> d1 k)"
    using assms(2,3) by (simp add: rewritten_def)
  show ?thesis
    using a b by (cases "last_written fetch cwd ps k") simp_all
qed

lemma mkdir_exist_ok_keeps:
  "mkdir_exist_ok name d = Inr d' \<Longrightarrow> d k = Some (File c) \<Longrightarrow> d' k = Some (File c)"
  using mkdir_exist_ok_cases [of name d d'] by auto

lemma makedirs_key_keeps:
  "makedirs_key name d = Inr d' \<Longrightarrow> d k = Some (File c) \<Longrightarrow> d' k = Some (File c)"
proof (induction name d arbitrary: d' rule: makedirs_key.induct)
  case (1 name d)
  show ?case
  proof (cases "dirname name \<noteq> [] \<and> basename name \<noteq> [] \<and> node_at d (dirname name) = None")
    case True
    then obtain d1 where d1: "makedirs_key (dirname name) d = Inr d1"
      and m: "mkdir_exist_ok name d1 = Inr d'"
      using "1.prems"(1) by (subst (asm) makedirs_key.simps) (auto simp: Let_def split: sum.splits)
    have "d1 k = Some (File c)"
      using "1.IH" [OF refl refl True d1 "1.prems"(2)] .
    then show ?thesis
      using mkdir_exist_ok_keeps [OF m] by simp
  next
    case False
    then have "mkdir_exist_ok name d = Inr d'"
      using "1.prems"(1) by (subst (asm) makedirs_key.simps) (auto simp: Let_def)
    then show ?thesis
      using "1.prems"(2) by (rule mkdir_exist_ok_keeps)
  qed
qed

lemma makedirs_keeps:
  "makedirs cwd name d = Inr d' \<Longrightarrow> d k = Some (File c) \<Longrightarrow> d' k = Some (File c)"
  by (auto simp: makedirs_def split: if_splits dest: makedirs_key_keeps)

lemma fin_write_other:
  "k \<noteq> abspath cwd fin_file \<Longrightarrow> disk (fin_write cwd t w) k = disk w k"
  by (simp add: fin_write_def fin_flush_def Let_def record_event_def)

lemma fin_close_other:
  "k \<noteq> abspath cwd fin_file \<Longrightarrow> disk (fin_close cwd w) k = disk w k"
  by (simp add: fin_close_def fin_flush_def Let_def)

lemma last_written_single:
  "last_written fetch cwd [p] k =
     (if abspath cwd (pair_file p) = k then Some (pair_content fetch p) else None)"
  by simp

lemma save_series_overwritten:
  assumes sv: "save_series cwd ch (sanitize ch) s e data w = (Completed, w')"
    and f: "fetch ch s e nds_host = Inr data"
  shows "overwritten fetch cwd [(ch, s, e)] (disk w) (disk w')"
proof -
  let ?D = "time_dir_path_of (sanitize ch) s e"
  let ?F = "output_file_of ch ?D s e"
  obtain d1 d2 where m: "makedirs cwd ?D (disk w) = Inr d1"
    and wr: "write_file cwd ?F (payload data) d1 = Inr d2"
    and w': "w' = record_event
      (Printed (''Added to fin.txt: '' @ abspath cwd ?F
         @ '' '' @ py_format (t0 data) @ '' '' @ py_format (dt data) @ '' 0 0''))
      (fin_write cwd (manifest_line cwd ?F data)
        (record_event
          (Printed (''Aux data for channel '' @ [quote] @ ch @ [quote] @ '' from ''
             @ str_int s @ '' to '' @ str_int e @ '' saved to '' @ ?F))
          ((record_event (WriteFile ?F)
              ((record_event (Makedirs ?D) w)\<lparr>disk := d1\<rparr>))
           \<lparr>disk := d2\<rparr>)))"
    using save_series_Completed [OF sv] by blast
  have d2: "d2 = d1(abspath cwd ?F \<mapsto> File (payload data))"
    using write_file_result [OF wr] by simp
  show ?thesis
    unfolding overwritten_def
  proof (intro allI impI)
    fix k
    assume k: "k \<noteq> abspath cwd fin_file"
    have dk: "disk w' k = d2 k"
      unfolding w' using k by (simp add: disk_record_event fin_write_other)
    show "case last_written fetch cwd [(ch, s, e)] k of
           Some c \<Rightarrow> disk w' k = Some (File c)
         | None \<Rightarrow> (\<forall>c. disk w k = Some (File c) \<longrightarrow> disk w' k = Some (File c))"
    proof (cases "abspath cwd ?F = k")
      case True
      then show ?thesis
        using dk d2 f by auto
    next
      case False
      have "d2 k = Some (File c)" if "disk w k = Some (File c)" for c
        using makedirs_keeps [OF m that] d2 False by simp
      then show ?thesis
        using False dk by simp
    qed
  qed
qed

lemma save_series_first:
  assumes sv: "save_series cwd ch cd s e data w = (Completed, w')"
    and op: "fin_opened (shape (disk w)) cwd"
  shows "grows (disk w) (disk w')"
    and "time_dir_path_of cd s e \<noteq> []"
    and "dir_settled (shape (disk w')) (abspath cwd (time_dir_path_of cd s e))"
    and "file_settled (shape (disk w')) cwd (output_file_of ch (time_dir_path_of cd s e) s e)"
proof -
  let ?D = "time_dir_path_of cd s e"
  let ?F = "output_file_of ch ?D s e"
  obtain d1 d2 where m: "makedirs cwd ?D (disk w) = Inr d1"
    and wr: "write_file cwd ?F (payload data) d1 = Inr d2"
    and w': "w' = record_event
      (Printed (''Added to fin.txt: '' @ abspath cwd ?F
         @ '' '' @ py_format (t0 data) @ '' '' @ py_format (dt data) @ '' 0 0''))
      (fin_write cwd (manifest_line cwd ?F data)
        (record_event
          (Printed (''Aux data for channel '' @ [quote] @ ch @ [quote] @ '' from ''
             @ str_int s @ '' to '' @ str_int e @ '' saved to '' @ ?F))
          ((record_event (WriteFile ?F)
              ((record_event (Makedirs ?D) w)\<lparr>disk := d1\<rparr>))
           \<lparr>disk := d2\<rparr>)))"
    using save_series_Completed [OF sv] by blast
  have g1: "grows (disk w) d1" and n: "?D \<noteq> []" and ds: "dir_settled (shape d1) (abspath cwd ?D)"
    using makedirs_shape [OF m] by simp_all
  have g2: "grows d1 d2" and fs: "file_settled (shape d2) cwd ?F"
    using write_file_shape [OF wr] by simp_all
  have g: "grows (disk w) d2"
    using g1 g2 by (rule grows_trans)
  have "fin_opened (shape d2) cwd"
    using g op by (rule grows_fin_opened)
  then have sh: "shape (disk w') = shape d2"
    unfolding w' by (simp add: disk_record_event fin_write_shape fin_opened_def)
  show "grows (disk w) (disk w')"
    using g sh by (rule grows_to_same_shape)
  show "?D \<noteq> []"
    by (rule n)
  show "dir_settled (shape (disk w')) (abspath cwd ?D)"
    unfolding sh using g2 ds by (rule grows_dir_settled)
  show "file_settled (shape (disk w')) cwd ?F"
    unfolding sh by (rule fs)
qed

lemma save_series_again:
  assumes op: "fin_opened (shape (disk w)) cwd"
    and n: "time_dir_path_of cd s e \<noteq> []"
    and ds: "dir_settled (shape (disk w)) (abspath cwd (time_dir_path_of cd s e))"
    and fs: "file_settled (shape (disk w)) cwd (output_file_of ch (time_dir_path_of cd s e) s e)"
  shows "\<exists>w'. save_series cwd ch cd s e data w = (Completed, w') \<and>
     shape (disk w') = shape (disk w) \<and>
     (\<forall>k. k \<noteq> abspath cwd fin_file \<longrightarrow>
        disk w' k = ((disk w)(abspath cwd (output_file_of ch (time_dir_path_of cd s e) s e)
                       \<mapsto> File (payload data))) k)"
proof -
  let ?D = "time_dir_path_of cd s e"
  let ?F = "output_file_of ch ?D s e"
  let ?d2 = "(disk w)(abspath cwd ?F \<mapsto> File (payload data))"
  have m: "makedirs cwd ?D (disk w) = Inr (disk w)"
    using n ds by (rule makedirs_settled)
  have wr: "write_file cwd ?F (payload data) (disk w) = Inr ?d2"
    and sh: "shape ?d2 = shape (disk w)"
    using write_file_settled [OF fs] by simp_all
  have o2: "shape ?d2 (abspath cwd fin_file) = Some IsFile"
    using op by (simp add: sh fin_opened_def)
  have a: "fst (save_series cwd ch cd s e data w) = Completed \<and>
      shape (disk (snd (save_series cwd ch cd s e data w))) = shape (disk w)"
    using o2 by (simp add: save_series_def Let_def disk_record_event m wr fin_write_shape sh)
  have b: "disk (snd (save_series cwd ch cd s e data w)) k = ?d2 k"
    if "k \<noteq> abspath cwd fin_file" for k
    using that by (simp add: save_series_def Let_def disk_record_event m wr fin_write_other)
  show ?thesis
    using a b by (metis prod.collapse)
qed

lemma process_time_row_first:
  assumes "process_time_row fetch cwd c (sanitize c) tr w = (Completed, w')"
    and op: "fin_opened (shape (disk w)) cwd"
  shows "grows (disk w) (disk w')"
    and "pair_settled (shape (disk w')) cwd (c, row_start tr, row_end tr)"
proof -
  obtain data where sv: "save_series cwd c (sanitize c) (row_start tr) (row_end tr) data
       (record_event (Fetch c (row_start tr) (row_end tr) nds_host) w) = (Completed, w')"
    using process_time_row_Completed [OF assms(1)] by blast
  have op1: "fin_opened (shape (disk (record_event (Fetch c (row_start tr) (row_end tr) nds_host) w))) cwd"
    using op by (simp add: disk_record_event)
  note r = save_series_first [OF sv op1]
  show "grows (disk w) (disk w')"
    using r(1) by (simp add: disk_record_event)
  show "pair_settled (shape (disk w')) cwd (c, row_start tr, row_end tr)"
    using r(2,3,4) by (simp add: pair_settled_def)
qed

lemma process_time_row_again:
  assumes op: "fin_opened (shape (disk w)) cwd"
    and ps: "pair_settled (shape (disk w)) cwd (c, row_start tr, row_end tr)"
    and ok: "fetch_ok fetch (c, row_start tr, row_end tr)"
  shows "\<exists>w'. process_time_row fetch cwd c (sanitize c) tr w = (Completed, w') \<and>
     shape (disk w') = shape (disk w) \<and>
     rewritten fetch cwd [(c, row_start tr, row_end tr)] (disk w) (disk w')"
proof -
  let ?w1 = "record_event (Fetch c (row_start tr) (row_end tr) nds_host) w"
  let ?F = "output_file_of c (time_dir_path_of (sanitize c) (row_start tr) (row_end tr))
      (row_start tr) (row_end tr)"
  obtain data where f: "fetch c (row_start tr) (row_end tr) nds_host = Inr data"
    using ok by (auto simp: fetch_ok_def split: sum.splits)
  have "\<exists>w'. save_series cwd c (sanitize c) (row_start tr) (row_end tr) data ?w1 = (Completed, w')
      \<and> shape (disk w') = shape (disk ?w1)
      \<and> (\<forall>k. k \<noteq> abspath cwd fin_file \<longrightarrow>
            disk w' k = ((disk ?w1)(abspath cwd ?F \<mapsto> File (payload data))) k)"
    using op ps by (intro save_series_again) (simp_all add: disk_record_event pair_settled_def)
  then obtain w' where sv: "save_series cwd c (sanitize c) (row_start tr) (row_end tr) data ?w1
        = (Completed, w')"
    and sh: "shape (disk w') = shape (disk w)"
    and dk: "\<forall>k. k \<noteq> abspath cwd fin_file \<longrightarrow>
            disk w' k = ((disk w)(abspath cwd ?F \<mapsto> File (payload data))) k"
    by (auto simp: disk_record_event)
  have "rewritten fetch cwd [(c, row_start tr, row_end tr)] (disk w) (disk w')"
    unfolding rewritten_def using dk f by auto
  then show ?thesis
    using f sv sh by (simp add: process_time_row_def Let_def)
qed

lemma time_loop_first:
  assumes "time_loop fetch cwd c (sanitize c) trs w = (Completed, w')"
    and "fin_opened (shape (disk w)) cwd"
  shows "grows (disk w) (disk w') \<and>
    (\<forall>p \<in> set (map (\<lambda>t. (c, row_start t, row_end t)) trs). pair_settled (shape (disk w')) cwd p)"
  using assms
proof (induction trs arbitrary: w)
  case Nil
  then show ?case by (simp add: grows_refl)
next
  case (Cons t trs)
  obtain r1 w1 where s: "process_time_row fetch cwd c (sanitize c) t w = (r1, w1)"
    by (cases "process_time_row fetch cwd c (sanitize c) t w") auto
  have r1: "r1 = Completed"
    using Cons.prems(1) s by (cases r1) auto
  then have rest: "time_loop fetch cwd c (sanitize c) trs w1 = (Completed, w')"
    using Cons.prems(1) s by simp
  have s': "process_time_row fetch cwd c (sanitize c) t w = (Completed, w1)"
    using s r1 by simp
  have g1: "grows (disk w) (disk w1)"
    and p1: "pair_settled (shape (disk w1)) cwd (c, row_start t, row_end t)"
    using process_time_row_first [OF s' Cons.prems(2)] by simp_all
  have op1: "fin_opened (shape (disk w1)) cwd"
    using g1 Cons.prems(2) by (rule grows_fin_opened)
  have ih: "grows (disk w1) (disk w')"
    "\<forall>p \<in> set (map (\<lambda>t. (c, row_start t, row_end t)) trs). pair_settled (shape (disk w')) cwd p"
    using Cons.IH [OF rest op1] by simp_all
  have "pair_settled (shape (disk w')) cwd (c, row_start t, row_end t)"
    using ih(1) p1 by (rule grows_pair_settled)
  moreover have "grows (disk w) (disk w')"
    using g1 ih(1) by (rule grows_trans)
  ultimately show ?case
    using ih(2) by simp
qed

lemma time_loop_again:
  assumes "fin_opened (shape (disk w)) cwd"
    and "\<forall>p \<in> set (map (\<lambda>t. (c, row_start t, row_end t)) trs). pair_settled (shape (disk w)) cwd p"
    and "list_all (fetch_ok fetch) (map (\<lambda>t. (c, row_start t, row_end t)) trs)"
  shows "\<exists>w'. time_loop fetch cwd c (sanitize c) trs w = (Completed, w') \<and>
     shape (disk w') = shape (disk w) \<and>
     rewritten fetch cwd (map (\<lambda>t. (c, row_start t, row_end t)) trs) (disk w) (disk w')"
  using assms
proof (induction trs arbitrary: w)
  case Nil
  then show ?case by (simp add: rewritten_Nil)
next
  case (Cons t trs)
  obtain w1 where s: "process_time_row fetch cwd c (sanitize c) t w = (Completed, w1)"
    and sh: "shape (disk w1) = shape (disk w)"
    and rw: "rewritten fetch cwd [(c, row_start t, row_end t)] (disk w) (disk w1)"
    using process_time_row_again [of w cwd c t fetch] Cons.prems by auto
  have "\<exists>w'. time_loop fetch cwd c (sanitize c) trs w1 = (Completed, w') \<and>
     shape (disk w') = shape (disk w1) \<and>
     rewritten fetch cwd (map (\<lambda>t. (c, row_start t, row_end t)) trs) (disk w1) (disk w')"
    using Cons.prems by (intro Cons.IH) (simp_all add: sh)
  then obtain w' where l: "time_loop fetch cwd c (sanitize c) trs w1 = (Completed, w')"
    and sh': "shape (disk w') = shape (disk w1)"
    and rw': "rewritten fetch cwd (map (\<lambda>t. (c, row_start t, row_end t)) trs) (disk w1) (disk w')"
    by auto
  have "rewritten fetch cwd ((c, row_start t, row_end t) # map (\<lambda>t. (c, row_start t, row_end t)) trs)
      (disk w) (disk w')"
    using rw rw' by (rule rewritten_Cons)
  then show ?case
    using s l sh sh' by simp
qed

lemma process_channel_row_first:
  assumes "process_channel_row fetch cwd trs c w = (Completed, w')"
    and op: "fin_opened (shape (disk w)) cwd"
  shows "grows (disk w) (disk w')"
    and "channel_settled (shape (disk w')) cwd c"
    and "\<forall>p \<in> set (pairs_of_channel trs c). pair_settled (shape (disk w')) cwd p"
proof -
  let ?cd = "sanitize (channel c)"
  let ?w1 = "record_event (Makedirs ?cd) w"
  obtain d1 where m: "makedirs cwd ?cd (disk w) = Inr d1"
    and t: "time_loop fetch cwd (channel c) ?cd trs (?w1\<lparr>disk := d1\<rparr>) = (Completed, w')"
    using assms(1)
    by (auto simp: process_channel_row_def Let_def sanitize_def disk_record_event split: sum.splits)
  have g1: "grows (disk w) d1" and n: "?cd \<noteq> []" and ds: "dir_settled (shape d1) (abspath cwd ?cd)"
    using makedirs_shape [OF m] by simp_all
  have op1: "fin_opened (shape (disk (?w1\<lparr>disk := d1\<rparr>))) cwd"
    using grows_fin_opened [OF g1 op] by simp
  have l: "grows (disk (?w1\<lparr>disk := d1\<rparr>)) (disk w')"
    "\<forall>p \<in> set (map (\<lambda>t. (channel c, row_start t, row_end t)) trs).
        pair_settled (shape (disk w')) cwd p"
    using time_loop_first [OF t op1] by simp_all
  have g2: "grows d1 (disk w')"
    using l(1) by simp
  show "grows (disk w) (disk w')"
    using g1 g2 by (rule grows_trans)
  have "channel_settled (shape d1) cwd c"
    using n ds by (simp add: channel_settled_def)
  then show "channel_settled (shape (disk w')) cwd c"
    using g2 grows_channel_settled by blast
  show "\<forall>p \<in> set (pairs_of_channel trs c). pair_settled (shape (disk w')) cwd p"
    using l(2) by (simp add: pairs_of_channel_def)
qed

lemma process_channel_row_again:
  assumes op: "fin_opened (shape (disk w)) cwd"
    and cs: "channel_settled (shape (disk w)) cwd c"
    and ps: "\<forall>p \<in> set (pairs_of_channel trs c). pair_settled (shape (disk w)) cwd p"
    and ok: "list_all (fetch_ok fetch) (pairs_of_channel trs c)"
  shows "\<exists>w'. process_channel_row fetch cwd trs c w = (Completed, w') \<and>
     shape (disk w') = shape (disk w) \<and>
     rewritten fetch cwd (pairs_of_channel trs c) (disk w) (disk w')"
proof -
  let ?cd = "sanitize (channel c)"
  let ?w1 = "(record_event (Makedirs ?cd) w)\<lparr>disk := disk w\<rparr>"
  have m: "makedirs cwd ?cd (disk w) = Inr (disk w)"
    using cs by (intro makedirs_settled) (simp_all add: channel_settled_def)
  have "\<exists>w'. time_loop fetch cwd (channel c) ?cd trs ?w1 = (Completed, w') \<and>
     shape (disk w') = shape (disk ?w1) \<and>
     rewritten fetch cwd (map (\<lambda>t. (channel c, row_start t, row_end t)) trs) (disk ?w1) (disk w')"
    using op ps ok by (intro time_loop_again) (simp_all add: pairs_of_channel_def)
  then obtain w' where t: "time_loop fetch cwd (channel c) ?cd trs ?w1 = (Completed, w')"
    and sh: "shape (disk w') = shape (disk w)"
    and rw: "rewritten fetch cwd (pairs_of_channel trs c) (disk w) (disk w')"
    by (auto simp: pairs_of_channel_def)
  have "process_channel_row fetch cwd trs c w = time_loop fetch cwd (channel c) ?cd trs ?w1"
    using m by (simp add: process_channel_row_def Let_def sanitize_def disk_record_event)
  then show ?thesis
    using t sh rw by simp
qed

lemma channel_loop_first:
  assumes "channel_loop fetch cwd trs cs w = (Completed, w')"
    and "fin_opened (shape (disk w)) cwd"
  shows "grows (disk w) (disk w') \<and>
    (\<forall>c \<in> set cs. channel_settled (shape (disk w')) cwd c) \<and>
    (\<forall>p \<in> set (pairs cs trs). pair_settled (shape (disk w')) cwd p)"
  using assms
proof (induction cs arbitrary: w)
  case Nil
  then show ?case by (simp add: grows_refl pairs_def)
next
  case (Cons c cs)
  obtain r1 w1 where s: "process_channel_row fetch cwd trs c w = (r1, w1)"
    by (cases "process_channel_row fetch cwd trs c w") auto
  have r1: "r1 = Completed"
    using Cons.prems(1) s by (cases r1) auto
  then have rest: "channel_loop fetch cwd trs cs w1 = (Completed, w')"
    using Cons.prems(1) s by simp
  have s': "process_channel_row fetch cwd trs c w = (Completed, w1)"
    using s r1 by simp
  note h = process_channel_row_first [OF s' Cons.prems(2)]
  have op1: "fin_opened (shape (disk w1)) cwd"
    using h(1) Cons.prems(2) by (rule grows_fin_opened)
  have ih: "grows (disk w1) (disk w')"
    "\<forall>c \<in> set cs. channel_settled (shape (disk w')) cwd c"
    "\<forall>p \<in> set (pairs cs trs). pair_settled (shape (disk w')) cwd p"
    using Cons.IH [OF rest op1] by simp_all
  have a: "grows (disk w) (disk w')"
    using h(1) ih(1) by (rule grows_trans)
  have b: "channel_settled (shape (disk w')) cwd c"
    using ih(1) h(2) by (rule grows_channel_settled)
  have c: "\<forall>p \<in> set (pairs_of_channel trs c). pair_settled (shape (disk w')) cwd p"
    using ih(1) h(3) grows_pair_settled by blast
  show ?case
    using a b c ih(2,3) by (auto simp: pairs_Cons)
qed

lemma channel_loop_again:
  assumes "fin_opened (shape (disk w)) cwd"
    and "\<forall>c \<in> set cs. channel_settled (shape (disk w)) cwd c"
    and "\<forall>p \<in> set (pairs cs trs). pair_settled (shape (disk w)) cwd p"
    and "list_all (fetch_ok fetch) (pairs cs trs)"
  shows "\<exists>w'. channel_loop fetch cwd trs cs w = (Completed, w') \<and>
     shape (disk w') = shape (disk w) \<and>
     rewritten fetch cwd (pairs cs trs) (disk w) (disk w')"
  using assms
proof (induction cs arbitrary: w)
  case Nil
  then show ?case by (simp add: pairs_def rewritten_Nil)
next
  case (Cons c cs)
  obtain w1 where s: "process_channel_row fetch cwd trs c w = (Completed, w1)"
    and sh: "shape (disk w1) = shape (disk w)"
    and rw: "rewritten fetch cwd (pairs_of_channel trs c) (disk w) (disk w1)"
    using process_channel_row_again [of w cwd c trs fetch] Cons.prems by (auto simp: pairs_Cons)
  have "\<exists>w'. channel_loop fetch cwd trs cs w1 = (Completed, w') \<and>
     shape (disk w') = shape (disk w1) \<and>
     rewritten fetch cwd (pairs cs trs) (disk w1) (disk w')"
    using Cons.prems by (intro Cons.IH) (simp_all add: sh pairs_Cons)
  then obtain w' where l: "channel_loop fetch cwd trs cs w1 = (Completed, w')"
    and sh': "shape (disk w') = shape (disk w1)"
    and rw': "rewritten fetch cwd (pairs cs trs) (disk w1) (disk w')"
    by auto
  have "rewritten fetch cwd (pairs (c # cs) trs) (disk w) (disk w')"
    unfolding pairs_Cons using rw rw' by (rule rewritten_append)
  then show ?case
    using s l sh sh' by simp
qed

lemma fetchdat_first:
  assumes "fetchdat fetch cwd cs trs w = (Completed, w')"
  shows "fin_opened (shape (disk w')) cwd"
    and "\<forall>c \<in> set cs. channel_settled (shape (disk w')) cwd c"
    and "\<forall>p \<in> set (pairs cs trs). pair_settled (shape (disk w')) cwd p"
proof -
  obtain w1 w2 where o: "open_append cwd fin_file w = Inr w1"
    and l: "channel_loop fetch cwd trs cs w1 = (Completed, w2)"
    and c: "w' = fin_close cwd w2"
    using assms by (auto simp: fetchdat_def split: sum.splits prod.splits)
  have op1: "fin_opened (shape (disk w1)) cwd"
    using open_append_opened [OF o] by (simp add: fin_opened_def)
  note r = channel_loop_first [OF l op1]
  have op2: "fin_opened (shape (disk w2)) cwd"
    using r op1 grows_fin_opened by blast
  have sh: "shape (disk w') = shape (disk w2)"
    unfolding c using op2 by (simp add: fin_close_shape fin_opened_def)
  show "fin_opened (shape (disk w')) cwd"
    unfolding sh by (rule op2)
  show "\<forall>c \<in> set cs. channel_settled (shape (disk w')) cwd c"
    unfolding sh using r by simp
  show "\<forall>p \<in> set (pairs cs trs). pair_settled (shape (disk w')) cwd p"
    unfolding sh using r by simp
qed

lemma fetchdat_again:
  assumes op: "fin_opened (shape (disk w)) cwd"
    and "\<forall>c \<in> set cs. channel_settled (shape (disk w)) cwd c"
    and "\<forall>p \<in> set (pairs cs trs). pair_settled (shape (disk w)) cwd p"
    and "list_all (fetch_ok fetch) (pairs cs trs)"
  shows "\<exists>w'. fetchdat fetch cwd cs trs w = (Completed, w') \<and> shape (disk w') = shape (disk w) \<and>
     rewritten fetch cwd (pairs cs trs) (disk w) (disk w')"
proof -
  let ?w1 = "w\<lparr>fin_pending := []\<rparr>"
  have o: "open_append cwd fin_file w = Inr ?w1"
    using op by (intro open_append_settled) (simp add: fin_opened_def)
  have "\<exists>w2. channel_loop fetch cwd trs cs ?w1 = (Completed, w2) \<and>
     shape (disk w2) = shape (disk ?w1) \<and>
     rewritten fetch cwd (pairs cs trs) (disk ?w1) (disk w2)"
    using assms by (intro channel_loop_again) simp_all
  then obtain w2 where l: "channel_loop fetch cwd trs cs ?w1 = (Completed, w2)"
    and sh: "shape (disk w2) = shape (disk w)"
    and rw: "rewritten fetch cwd (pairs cs trs) (disk w) (disk w2)"
    by auto
  have sh': "shape (disk (fin_close cwd w2)) = shape (disk w2)"
    using op by (intro fin_close_shape) (simp add: sh fin_opened_def)
  have "rewritten fetch cwd (pairs cs trs) (disk w) (disk (fin_close cwd w2))"
    using rw by (simp add: rewritten_def fin_close_other)
  then show ?thesis
    using o l sh sh' by (simp add: fetchdat_def)
qed

text \<open>The files of a completed run hold what the last pair written to each of them
  fetched.\<close>

lemma process_time_row_overwritten:
  assumes "process_time_row fetch cwd c (sanitize c) tr w = (Completed, w')"
  shows "overwritten fetch cwd [(c, row_start tr, row_end tr)] (disk w) (disk w')"
proof -
  obtain data where f: "fetch c (row_start tr) (row_end tr) nds_host = Inr data"
    and sv: "save_series cwd c (sanitize c) (row_start tr) (row_end tr) data
       (record_event (Fetch c (row_start tr) (row_end tr) nds_host) w) = (Completed, w')"
    using process_time_row_Completed [OF assms] by blast
  show ?thesis
    using save_series_overwritten [where fetch = fetch, OF sv f] by (simp add: disk_record_event)
qed

lemma time_loop_overwritten:
  assumes "time_loop fetch cwd c (sanitize c) trs w = (Completed, w')"
  shows "overwritten fetch cwd (map (\<lambda>t. (c, row_start t, row_end t)) trs) (disk w) (disk w')"
  using assms
proof (induction trs arbitrary: w)
  case Nil
  then show ?case by (simp add: overwritten_Nil)
next
  case (Cons t trs)
  obtain r1 w1 where s: "process_time_row fetch cwd c (sanitize c) t w = (r1, w1)"
    by (cases "process_time_row fetch cwd c (sanitize c) t w") auto
  have r1: "r1 = Completed"
    using Cons.prems s by (cases r1) auto
  then have rest: "time_loop fetch cwd c (sanitize c) trs w1 = (Completed, w')"
    using Cons.prems s by simp
  have s': "process_time_row fetch cwd c (sanitize c) t w = (Completed, w1)"
    using s r1 by simp
  have "overwritten fetch cwd ((c, row_start t, row_end t) # map (\<lambda>t. (c, row_start t, row_end t)) trs)
      (disk w) (disk w')"
    using process_time_row_overwritten [OF s'] Cons.IH [OF rest] by (rule overwritten_Cons)
  then show ?case by simp
qed

lemma process_channel_row_overwritten:
  assumes "process_channel_row fetch cwd trs c w = (Completed, w')"
  shows "overwritten fetch cwd (pairs_of_channel trs c) (disk w) (disk w')"
proof -
  let ?cd = "sanitize (channel c)"
  let ?w1 = "record_event (Makedirs ?cd) w"
  obtain d1 where m: "makedirs cwd ?cd (disk w) = Inr d1"
    and t: "time_loop fetch cwd (channel c) ?cd trs (?w1\<lparr>disk := d1\<rparr>) = (Completed, w')"
    using assms
    by (auto simp: process_channel_row_def Let_def sanitize_def disk_record_event split: sum.splits)
  have a: "overwritten fetch cwd [] (disk w) d1"
    using makedirs_keeps [OF m] by (intro overwritten_Nil)
  have b: "overwritten fetch cwd (pairs_of_channel trs c) d1 (disk w')"
    using time_loop_overwritten [OF t] by (simp add: pairs_of_channel_def)
  show ?thesis
    using overwritten_append [OF a b] by simp
qed

lemma channel_loop_overwritten:
  assumes "channel_loop fetch cwd trs cs w = (Completed, w')"
  shows "overwritten fetch cwd (pairs cs trs) (disk w) (disk w')"
  using assms
proof (induction cs arbitrary: w)
  case Nil
  then show ?case by (simp add: pairs_def overwritten_Nil)
next
  case (Cons c cs)
  obtain r1 w1 where s: "process_channel_row fetch cwd trs c w = (r1, w1)"
    by (cases "process_channel_row fetch cwd trs c w") auto
  have r1: "r1 = Completed"
    using Cons.prems s by (cases r1) auto
  then have rest: "channel_loop fetch cwd trs cs w1 = (Completed, w')"
    using Cons.prems s by simp
  have s': "process_channel_row fetch cwd trs c w = (Completed, w1)"
    using s r1 by simp
  show ?case
    unfolding pairs_Cons
    using process_channel_row_overwritten [OF s'] Cons.IH [OF rest] by (rule overwritten_append)
qed

lemma fetchdat_overwritten:
  assumes "fetchdat fetch cwd cs trs w = (Completed, w')"
  shows "\<exists>d0. overwritten fetch cwd (pairs cs trs) d0 (disk w')"
proof -
  obtain w1 w2 where l: "channel_loop fetch cwd trs cs w1 = (Completed, w2)"
    and c: "w' = fin_close cwd w2"
    using assms by (auto simp: fetchdat_def split: sum.splits prod.splits)
  have "overwritten fetch cwd (pairs cs trs) (disk w1) (disk w')"
    unfolding overwritten_def
  proof (intro allI impI)
    fix k
    assume k: "k \<noteq> abspath cwd fin_file"
    have e: "disk w' k = disk w2 k"
      unfolding c using k by (rule fin_close_other)
    have "case last_written fetch cwd (pairs cs trs) k of
           Some c \<Rightarrow> disk w2 k = Some (File c)
         | None \<Rightarrow> (\<forall>c. disk w1 k = Some (File c) \<longrightarrow> disk w2 k = Some (File c))"
      using channel_loop_overwritten [OF l] k by (simp add: overwritten_def)
    then show "case last_written fetch cwd (pairs cs trs) k of
           Some c \<Rightarrow> disk w' k = Some (File c)
         | None \<Rightarrow> (\<forall>c. disk w1 k = Some (File c) \<longrightarrow> disk w' k = Some (File c))"
      by (cases "last_written fetch cwd (pairs cs trs) k") (simp_all add: e)
  qed
  then show ?thesis by blast
qed

text \<open>
  C4 (as amended). If a run of the driver completes, running it again with the same inputs
  on what the first run left completes too: no directory creation raises, since the
  directories exist; the directory tree after the second run is the tree after the first,
  the same paths being directories and files; the second run writes the same file paths in
  the same order, and every entry of the disk other than the manifest is as the first run
  left it, the output files overwritten with the same series. Each run calls
  \<^verbatim>\<open>fin.write\<close> once per pair, with the line of that pair, \<open>C \<times> R\<close> calls in all, and the
  manifest after the second run is the manifest after the first followed by the same
  lines once more.
\<close>

theorem rerun_same_tree_manifest_appended:
  assumes "fetchdat fetch cwd channels time_ranges w = (Completed, w1)"
  shows "\<exists>w2. fetchdat fetch cwd channels time_ranges w1 = (Completed, w2) \<and>
    shape (disk w2) = shape (disk w1) \<and>
    (\<forall>k. k \<noteq> abspath cwd fin_file \<longrightarrow> disk w2 k = disk w1 k) \<and>
    (\<forall>p \<in> set (pairs channels time_ranges).
       shape (disk w1) (abspath cwd (pair_dir p)) = Some IsDir \<and>
       shape (disk w1) (abspath cwd (pair_file p)) = Some IsFile) \<and>
    written_paths (new_events w w1) = map pair_file (pairs channels time_ranges) \<and>
    written_paths (new_events w1 w2) = map pair_file (pairs channels time_ranges) \<and>
    made_dirs (new_events w1 w2) = made_dirs (new_events w w1) \<and>
    fin_writes (new_events w w1) = map (pair_line fetch cwd) (pairs channels time_ranges) \<and>
    fin_writes (new_events w1 w2) = map (pair_line fetch cwd) (pairs channels time_ranges) \<and>
    length (pairs channels time_ranges) = length channels * length time_ranges \<and>
    file_text (disk w1) (abspath cwd fin_file)
      = file_text (disk w) (abspath cwd fin_file)
        @ concat (map (pair_line fetch cwd) (pairs channels time_ranges)) \<and>
    file_text (disk w2) (abspath cwd fin_file)
      = file_text (disk w1) (abspath cwd fin_file)
        @ concat (map (pair_line fetch cwd) (pairs channels time_ranges))"
proof -
  let ?ps = "pairs channels time_ranges"
  note first = fetchdat_Completed [OF assms]
  note settled = fetchdat_first [OF assms]
  obtain d0 where ov: "overwritten fetch cwd ?ps d0 (disk w1)"
    using fetchdat_overwritten [OF assms] by blast
  obtain w2 where second: "fetchdat fetch cwd channels time_ranges w1 = (Completed, w2)"
    and sh: "shape (disk w2) = shape (disk w1)"
    and rw: "rewritten fetch cwd ?ps (disk w1) (disk w2)"
    using fetchdat_again [OF settled first(1)] by blast
  note again = fetchdat_Completed [OF second]
  have e1: "new_events w w1 = run_events fetch cwd channels time_ranges"
    using first(2) by (rule new_events_from)
  have e2: "new_events w1 w2 = run_events fetch cwd channels time_ranges"
    using again(2) by (rule new_events_from)
  have db: "done_block fetch cwd ?ps (run_events fetch cwd channels time_ranges)"
    using first(1) by (rule run_events_done)
  have same: "\<forall>k. k \<noteq> abspath cwd fin_file \<longrightarrow> disk w2 k = disk w1 k"
    using rewritten_after_overwritten [OF ov rw] by simp
  have tree: "\<forall>p \<in> set ?ps.
       shape (disk w1) (abspath cwd (pair_dir p)) = Some IsDir \<and>
       shape (disk w1) (abspath cwd (pair_file p)) = Some IsFile"
    using settled(3) by (simp add: pair_settled_def dir_settled_def file_settled_def)
  have wp: "written_paths (run_events fetch cwd channels time_ranges) = map pair_file ?ps"
    and fw: "fin_writes (run_events fetch cwd channels time_ranges) = map (pair_line fetch cwd) ?ps"
    using db by (simp_all add: done_block_def)
  show ?thesis
  proof (intro exI conjI)
    show "fetchdat fetch cwd channels time_ranges w1 = (Completed, w2)"
      by (rule second)
    show "shape (disk w2) = shape (disk w1)"
      by (rule sh)
    show "\<forall>k. k \<noteq> abspath cwd fin_file \<longrightarrow> disk w2 k = disk w1 k"
      by (rule same)
    show "\<forall>p \<in> set ?ps.
       shape (disk w1) (abspath cwd (pair_dir p)) = Some IsDir \<and>
       shape (disk w1) (abspath cwd (pair_file p)) = Some IsFile"
      by (rule tree)
    show "written_paths (new_events w w1) = map pair_file ?ps"
      unfolding e1 by (rule wp)
    show "written_paths (new_events w1 w2) = map pair_file ?ps"
      unfolding e2 by (rule wp)
    show "made_dirs (new_events w1 w2) = made_dirs (new_events w w1)"
      unfolding e1 e2 by (rule refl)
    show "fin_writes (new_events w w1) = map (pair_line fetch cwd) ?ps"
      unfolding e1 by (rule fw)
    show "fin_writes (new_events w1 w2) = map (pair_line fetch cwd) ?ps"
      unfolding e2 by (rule fw)
    show "length ?ps = length channels * length time_ranges"
      by (rule length_pairs)
    show "file_text (disk w1) (abspath cwd fin_file)
      = file_text (disk w) (abspath cwd fin_file) @ concat (map (pair_line fetch cwd) ?ps)"
      by (rule first(4))
    show "file_text (disk w2) (abspath cwd fin_file)
      = file_text (disk w1) (abspath cwd fin_file) @ concat (map (pair_line fetch cwd) ?ps)"
      by (rule again(4))
  qed
qed

theorem rerun_same_tree_manifest_appended_witness:
  "fetchdat steady_fetch ''/w'' two_channels three_ranges sample_world
     = (Completed, snd (fetchdat steady_fetch ''/w'' two_channels three_ranges sample_world)) \<and>
   (\<exists>w2. fetchdat steady_fetch ''/w'' two_channels three_ranges
            (snd (fetchdat steady_fetch ''/w'' two_channels three_ranges sample_world))
          = (Completed, w2) \<and>
      shape (disk w2)
        = shape (disk (snd (fetchdat steady_fetch ''/w'' two_channels three_ranges sample_world))) \<and>
      length (fin_writes (new_events
          (snd (fetchdat steady_fetch ''/w'' two_channels three_ranges sample_world)) w2)) = 6 \<and>
      file_text (disk w2) (abspath ''/w'' fin_file)
        = concat (map (pair_line steady_fetch ''/w'') (pairs two_channels three_ranges))
          @ concat (map (pair_line steady_fetch ''/w'') (pairs two_channels three_ranges)))"
proof -
  let ?r = "fetchdat steady_fetch ''/w'' two_channels three_ranges sample_world"
  have h: "?r = (Completed, snd ?r)"
    using sample_run_completed by (metis prod.collapse)
  have t0: "file_text (disk sample_world) (abspath ''/w'' fin_file) = []"
    by (simp add: file_text_def sample_world_def)
  have l: "length (pairs two_channels three_ranges) = 6"
    by (simp add: length_pairs two_channels_def three_ranges_def)
  obtain w2 where w2: "fetchdat steady_fetch ''/w'' two_channels three_ranges (snd ?r) = (Completed, w2)"
    "shape (disk w2) = shape (disk (snd ?r))"
    "fin_writes (new_events (snd ?r) w2)
       = map (pair_line steady_fetch ''/w'') (pairs two_channels three_ranges)"
    "file_text (disk (snd ?r)) (abspath ''/w'' fin_file)
      = file_text (disk sample_world) (abspath ''/w'' fin_file)
        @ concat (map (pair_line steady_fetch ''/w'') (pairs two_channels three_ranges))"
    "file_text (disk w2) (abspath ''/w'' fin_file)
      = file_text (disk (snd ?r)) (abspath ''/w'' fin_file)
        @ concat (map (pair_line steady_fetch ''/w'') (pairs two_channels three_ranges))"
    using rerun_same_tree_manifest_appended [OF h] by blast
  have "length (fin_writes (new_events (snd ?r) w2)) = 6"
    using w2(3) l by simp
  moreover have "file_text (disk w2) (abspath ''/w'' fin_file)
        = concat (map (pair_line steady_fetch ''/w'') (pairs two_channels three_ranges))
          @ concat (map (pair_line steady_fetch ''/w'') (pairs two_channels three_ranges))"
    using w2(4,5) t0 by simp
  ultimately show ?thesis
    using h w2(1,2) by blast
qed

text \<open>
  The claim as first stated, one more manifest line per pair on each run, fails when a
  fetch raises: with two channels, three time ranges and a remote service that cannot be
  reached, the first run and the run after it both end with the exception of the first
  fetch, neither writes a line, and the manifest is empty after both, for six pairs.
\<close>

theorem two_runs_six_pairs_no_manifest_line:
  "length (pairs two_channels three_ranges) = 6 \<and>
   fst (fetchdat failing_fetch ''/w'' two_channels three_ranges sample_world)
     = Raised (OtherException ''unreachable'') \<and>
   fst (fetchdat failing_fetch ''/w'' two_channels three_ranges
     (snd (fetchdat failing_fetch ''/w'' two_channels three_ranges sample_world)))
     = Raised (OtherException ''unreachable'') \<and>
   fin_writes (events (snd (fetchdat failing_fetch ''/w'' two_channels three_ranges
     (snd (fetchdat failing_fetch ''/w'' two_channels three_ranges sample_world))))) = [] \<and>
   disk (snd (fetchdat failing_fetch ''/w'' two_channels three_ranges
     (snd (fetchdat failing_fetch ''/w'' two_channels three_ranges sample_world))))
     ''/w/fin.txt'' = Some (File [])"
  by (simp add: driver_eval fin_writes_simps length_pairs)

end
